theory Spec2Isabelle
  imports Complex_Main "HOL-Library.Word"
begin

section \<open>Values of the relay\<close>

text \<open>
  Every payload the relay handles is the result of \<^verbatim>\<open>JSON.parse\<close>: null, a boolean, a
  number, a string, an array or an object. An object is kept as the list of its own
  properties in the order in which \<^verbatim>\<open>for (const key in obj)\<close> enumerates them (keys are
  distinct in a parsed object). A number of a payload is kept as the rational that it
  denotes, which every finite double is; the search for a ticket id only passes numbers
  on, and the arithmetic of the doubles is modelled where the code computes, in
  \<open>getTicketColor\<close>. Strings are lists of 8-bit characters.
\<close>

datatype json =
    JNull
  | JBool bool
  | JNum rat
  | JStr string
  | JArr "json list"
  | JObj "(string \<times> json) list"

text \<open>The exceptions that the code can meet.\<close>

datatype exn = TypeError | SyntaxError | ZlibError

text \<open>\<^verbatim>\<open>typeof v === 'object'\<close> holds of objects, arrays and of null.\<close>

fun typeof_object :: "json \<Rightarrow> bool" where
  "typeof_object JNull = True"
| "typeof_object (JArr xs) = True"
| "typeof_object (JObj kvs) = True"
| "typeof_object v = False"

text \<open>
  \<^verbatim>\<open>String.prototype.toLowerCase\<close> on the ASCII letters; the other 8-bit characters
  are left as they are.
\<close>

definition lower_char :: "char \<Rightarrow> char" where
  "lower_char c =
     (let n = (of_char c :: nat) in if 65 \<le> n \<and> n \<le> 90 then char_of (n + 32) else c)"

definition toLowerCase :: "string \<Rightarrow> string" where
  "toLowerCase s = map lower_char s"

text \<open>The decimal name of an array index, as \<^verbatim>\<open>for ... in\<close> yields it.\<close>

fun index_key :: "nat \<Rightarrow> string" where
  "index_key n =
     (if n < 10 then [char_of (48 + n)]
      else index_key (n div 10) @ [char_of (48 + n mod 10)])"

text \<open>
  The properties that \<^verbatim>\<open>for (const key in obj)\<close> visits, each with \<^verbatim>\<open>obj[key]\<close>:
  the members of an object, the indexed elements of an array.
\<close>

fun props :: "json \<Rightarrow> (string \<times> json) list" where
  "props (JObj kvs) = kvs"
| "props (JArr xs) = zip (map index_key [0..<length xs]) xs"
| "props v = []"

text \<open>
  Property reads. The result \<open>None\<close> is \<^verbatim>\<open>undefined\<close>; reading a property of
  \<^verbatim>\<open>null\<close> or of \<^verbatim>\<open>undefined\<close> raises a TypeError.

  \<open>prop_0 v\<close> is \<^verbatim>\<open>v[0]\<close> and \<open>prop_id u\<close> is \<^verbatim>\<open>u.id\<close>, where \<open>u\<close> may
  itself be \<^verbatim>\<open>undefined\<close>.
\<close>

fun prop_0 :: "json \<Rightarrow> exn + json option" where
  "prop_0 JNull = Inl TypeError"
| "prop_0 (JArr []) = Inr None"
| "prop_0 (JArr (x # xs)) = Inr (Some x)"
| "prop_0 (JObj kvs) = Inr (map_of kvs ''0'')"
| "prop_0 (JStr []) = Inr None"
| "prop_0 (JStr (c # cs)) = Inr (Some (JStr [c]))"
| "prop_0 v = Inr None"

fun prop_id :: "json option \<Rightarrow> exn + json option" where
  "prop_id None = Inl TypeError"
| "prop_id (Some JNull) = Inl TypeError"
| "prop_id (Some (JObj kvs)) = Inr (map_of kvs ''id'')"
| "prop_id (Some v) = Inr None"

text \<open>\<^verbatim>\<open>x != null\<close>: neither \<^verbatim>\<open>undefined\<close> nor \<^verbatim>\<open>null\<close>.\<close>

fun not_nullish :: "json option \<Rightarrow> bool" where
  "not_nullish None = False"
| "not_nullish (Some JNull) = False"
| "not_nullish (Some v) = True"

text \<open>\<open>field v k\<close> is the read \<^verbatim>\<open>v.k\<close> of an own property of an object.\<close>

fun field :: "json \<Rightarrow> string \<Rightarrow> json option" where
  "field (JObj kvs) k = map_of kvs k"
| "field v k = None"

section \<open>ticket-utils.js: findTicketId\<close>

text \<open>
  The test
  \<^verbatim>\<open>typeof val === 'number' || (typeof val === 'string' && !isNaN(val))\<close>
  followed by \<^verbatim>\<open>Number(val)\<close>. The conversion of a string to a number belongs to the
  host: it is the parameter \<open>N\<close>, with \<open>None\<close> for NaN.
\<close>

fun numeric :: "(string \<Rightarrow> rat option) \<Rightarrow> json option \<Rightarrow> rat option" where
  "numeric N (Some (JNum n)) = Some n"
| "numeric N (Some (JStr s)) = N s"
| "numeric N v = None"

text \<open>The three tests of the first loop's body, in the order of the source.\<close>

definition direct_match :: "(string \<Rightarrow> rat option) \<Rightarrow> string \<Rightarrow> json \<Rightarrow> rat option" where
  "direct_match N lowerKey val =
     (if lowerKey = ''ticketid'' \<or> lowerKey = ''ticket_id'' then numeric N (Some val)
      else None)"

definition ticket_match :: "(string \<Rightarrow> rat option) \<Rightarrow> string \<Rightarrow> json \<Rightarrow> exn + rat option" where
  "ticket_match N lowerKey ticketObj =
     (if lowerKey = ''ticket'' \<and> typeof_object ticketObj then
        (case prop_id (Some ticketObj) of
           Inl e \<Rightarrow> Inl e
         | Inr val \<Rightarrow> if not_nullish val then Inr (numeric N val) else Inr None)
      else Inr None)"

definition ticketdata_match :: "(string \<Rightarrow> rat option) \<Rightarrow> string \<Rightarrow> json \<Rightarrow> exn + rat option" where
  "ticketdata_match N lowerKey ticketObj =
     (if lowerKey = ''ticketdata'' \<and> typeof_object ticketObj then
        (case prop_0 ticketObj of
           Inl e \<Rightarrow> Inl e
         | Inr first \<Rightarrow>
            (case prop_id first of
               Inl e \<Rightarrow> Inl e
             | Inr val \<Rightarrow> if not_nullish val then Inr (numeric N val) else Inr None))
      else Inr None)"

definition check_key :: "(string \<Rightarrow> rat option) \<Rightarrow> string \<Rightarrow> json \<Rightarrow> exn + rat option" where
  "check_key N key val =
     (let lowerKey = toLowerCase key in
      case direct_match N lowerKey val of
        Some n \<Rightarrow> Inr (Some n)
      | None \<Rightarrow>
         (case ticket_match N lowerKey val of
            Inl e \<Rightarrow> Inl e
          | Inr (Some n) \<Rightarrow> Inr (Some n)
          | Inr None \<Rightarrow> ticketdata_match N lowerKey val))"

text \<open>The first loop: the first key that matches returns, a failing read raises.\<close>

fun scan_keys :: "(string \<Rightarrow> rat option) \<Rightarrow> (string \<times> json) list \<Rightarrow> exn + rat option" where
  "scan_keys N [] = Inr None"
| "scan_keys N ((key, val) # rest) =
     (case check_key N key val of
        Inl e \<Rightarrow> Inl e
      | Inr (Some n) \<Rightarrow> Inr (Some n)
      | Inr None \<Rightarrow> scan_keys N rest)"

text \<open>
  A weight for property lists: the recursion below descends into proper parts of a
  finite tree.
\<close>

definition props_weight :: "(string \<times> json) list \<Rightarrow> nat" where
  "props_weight kvs = sum_list (map (\<lambda>kv. Suc (size (snd kv))) kvs)"

lemma props_weight_zip:
  "length ks = length xs \<Longrightarrow> props_weight (zip ks xs) = sum_list (map (\<lambda>x. Suc (size x)) xs)"
  by (induction ks xs rule: list_induct2) (simp_all add: props_weight_def)

lemma props_weight_obj: "props_weight kvs \<le> size_list (size_prod (\<lambda>k. 0) size) kvs"
  by (induction kvs) (auto simp: props_weight_def)

lemma props_weight_arr: "sum_list (map (\<lambda>x. Suc (size x)) xs) \<le> size_list size xs"
  by (induction xs) auto

lemma props_weight_props: "typeof_object obj \<Longrightarrow> obj \<noteq> JNull \<Longrightarrow> props_weight (props obj) \<le> size obj"
  by (cases obj) (simp_all add: props_weight_zip le_SucI props_weight_obj props_weight_arr)

text \<open>
  \<open>findTicketId N obj depth maxDepth\<close>: the guards, the first loop, then the second
  loop (\<open>search_children\<close>) over the same properties, which descends into each value
  whose \<^verbatim>\<open>typeof\<close> is \<^verbatim>\<open>'object'\<close> and returns the first result that is not null.
  \<open>Inr None\<close> is the result \<^verbatim>\<open>null\<close>, \<open>Inl e\<close> an exception that leaves the function.
  The line that the function prints before it returns null is left out.
\<close>

function findTicketId :: "(string \<Rightarrow> rat option) \<Rightarrow> json \<Rightarrow> int \<Rightarrow> int \<Rightarrow> exn + rat option"
  and search_children ::
    "(string \<Rightarrow> rat option) \<Rightarrow> (string \<times> json) list \<Rightarrow> int \<Rightarrow> int \<Rightarrow> exn + rat option"
where
  "findTicketId N obj depth maxDepth =
     (if depth > maxDepth \<or> obj = JNull then Inr None
      else if \<not> typeof_object obj then Inr None
      else
        (case scan_keys N (props obj) of
           Inl e \<Rightarrow> Inl e
         | Inr (Some n) \<Rightarrow> Inr (Some n)
         | Inr None \<Rightarrow> search_children N (props obj) depth maxDepth))"
| "search_children N [] depth maxDepth = Inr None"
| "search_children N ((key, val) # rest) depth maxDepth =
     (if typeof_object val then
        (case findTicketId N val (depth + 1) maxDepth of
           Inl e \<Rightarrow> Inl e
         | Inr (Some found) \<Rightarrow> Inr (Some found)
         | Inr None \<Rightarrow> search_children N rest depth maxDepth)
      else search_children N rest depth maxDepth)"
  by pat_completeness auto

termination
proof (relation "measure (\<lambda>a. case a of
    Inl (N, obj, depth, maxDepth) \<Rightarrow> 2 * size obj + 1
  | Inr (N, kvs, depth, maxDepth) \<Rightarrow> 2 * props_weight kvs)", goal_cases)
  case 1
  show ?case by simp
next
  case (2 N obj depth maxDepth)
  then show ?case using props_weight_props [of obj] by simp
next
  case (3 N key val rest depth maxDepth)
  show ?case by (simp add: props_weight_def)
next
  case (4 N key val rest depth maxDepth)
  show ?case by (simp add: props_weight_def)
next
  case (5 N key val rest depth maxDepth)
  show ?case by (simp add: props_weight_def)
qed

declare findTicketId.simps(1) [simp del]

text \<open>
  The nodes that a search from \<open>v\<close> can reach in exactly \<open>d\<close> descents of the second
  loop: \<open>children\<close> are the property values that the loop passes to the recursive call.
\<close>

definition children :: "json \<Rightarrow> json list" where
  "children v = filter typeof_object (map snd (props v))"

primrec nodes_at :: "nat \<Rightarrow> json \<Rightarrow> json list" where
  "nodes_at 0 v = [v]"
| "nodes_at (Suc d) v = concat (map (nodes_at d) (children v))"

definition nodes_within :: "nat \<Rightarrow> json \<Rightarrow> json list" where
  "nodes_within m v = concat (map (\<lambda>k. nodes_at k v) [0..<Suc m])"

section \<open>ticket-utils.js: getTicketColor\<close>

text \<open>
  The function computes with the numbers of the host, and its argument is such a number.
  The arithmetic is a parameter: the number that a numeric literal denotes, the product
  \<^verbatim>\<open>*\<close>, the remainder \<^verbatim>\<open>%\<close> and the sum \<^verbatim>\<open>+\<close>.
\<close>

record 'd arith =
  number :: "rat \<Rightarrow> 'd"
  multiply :: "'d \<Rightarrow> 'd \<Rightarrow> 'd"
  remainder :: "'d \<Rightarrow> 'd \<Rightarrow> 'd"
  addition :: "'d \<Rightarrow> 'd \<Rightarrow> 'd"

definition golden :: rat where
  "golden = 618033988749895 / 1000000000000000"

text \<open>
  The function returns a string: either the literal \<^verbatim>\<open>'#6b7280'\<close> or the template
  \<^verbatim>\<open>hsl(${hue}, ${saturation}%, ${lightness}%)\<close>, which is kept as its three numbers.
  \<^verbatim>\<open>ticketId == null\<close> holds of \<^verbatim>\<open>null\<close> and \<^verbatim>\<open>undefined\<close>: the argument \<open>None\<close>.
  The products associate to the left: \<^verbatim>\<open>(ticketId * golden) * 360\<close>.
\<close>

datatype 'd color = Hex string | Hsl 'd 'd 'd

definition getTicketColor :: "'d arith \<Rightarrow> 'd option \<Rightarrow> 'd color" where
  "getTicketColor A ticketId =
     (case ticketId of
        None \<Rightarrow> Hex ''#6b7280''
      | Some i \<Rightarrow>
          (let hue = remainder A
                       (multiply A (multiply A i (number A golden)) (number A 360))
                       (number A 360);
               saturation = addition A (number A 65) (remainder A i (number A 20));
               lightness = addition A (number A 45) (remainder A i (number A 15))
           in Hsl hue saturation lightness))"

subsection \<open>The numbers of the host: IEEE 754 binary64\<close>

text \<open>
  A double is a rational of the form \<open>m * 2 ^ e\<close> with \<open>\<bar>m\<bar> < 2 ^ 53\<close> and
  \<open>- 1074 \<le> e \<le> 971\<close>, an infinity, or NaN. The sign of a zero is not kept: it does not
  show in the string that the function returns. Every operation gives the exact result
  rounded to the nearest double, ties to the even significand; a result of magnitude
  \<open>2 ^ 1024\<close> or more after rounding is an infinity.
\<close>

datatype double = Finite rat | PlusInfinity | MinusInfinity | NaN

definition pow2 :: "int \<Rightarrow> rat" where
  "pow2 e = (if 0 \<le> e then 2 ^ nat e else 1 / 2 ^ nat (- e))"

function bitlen :: "int \<Rightarrow> int" where
  "bitlen n = (if n \<le> 0 then 0 else 1 + bitlen (n div 2))"
  by pat_completeness auto

termination
  by (relation "measure nat") auto

declare bitlen.simps [simp del]

text \<open>For \<open>a > 0\<close>, \<open>ilog2 a\<close> is the exponent \<open>e\<close> with \<open>2 ^ e \<le> a < 2 ^ (e + 1)\<close>.\<close>

definition ilog2 :: "rat \<Rightarrow> int" where
  "ilog2 a =
     (let (p, q) = quotient_of a;
          e = bitlen p - bitlen q
      in if pow2 e \<le> a then e else e - 1)"

definition round_half_even :: "rat \<Rightarrow> int" where
  "round_half_even q =
     (let f = \<lfloor>q\<rfloor>; d = q - of_int f
      in if d < 1 / 2 then f
         else if 1 / 2 < d then f + 1
         else if even f then f else f + 1)"

definition round64 :: "rat \<Rightarrow> double" where
  "round64 x =
     (if x = 0 then Finite 0
      else
        (let a = \<bar>x\<bar>;
             e = max (ilog2 a - 52) (- 1074);
             m = round_half_even (a / pow2 e);
             r = of_int m * pow2 e
         in if pow2 1024 \<le> r then (if 0 < x then PlusInfinity else MinusInfinity)
            else Finite (if 0 < x then r else - r)))"

fun double_times :: "double \<Rightarrow> double \<Rightarrow> double" where
  "double_times NaN y = NaN"
| "double_times x NaN = NaN"
| "double_times (Finite a) (Finite b) = round64 (a * b)"
| "double_times (Finite a) PlusInfinity =
     (if a = 0 then NaN else if 0 < a then PlusInfinity else MinusInfinity)"
| "double_times (Finite a) MinusInfinity =
     (if a = 0 then NaN else if 0 < a then MinusInfinity else PlusInfinity)"
| "double_times PlusInfinity (Finite b) =
     (if b = 0 then NaN else if 0 < b then PlusInfinity else MinusInfinity)"
| "double_times MinusInfinity (Finite b) =
     (if b = 0 then NaN else if 0 < b then MinusInfinity else PlusInfinity)"
| "double_times PlusInfinity PlusInfinity = PlusInfinity"
| "double_times PlusInfinity MinusInfinity = MinusInfinity"
| "double_times MinusInfinity PlusInfinity = MinusInfinity"
| "double_times MinusInfinity MinusInfinity = PlusInfinity"

text \<open>
  The remainder \<^verbatim>\<open>%\<close> truncates the quotient towards zero, so the result has the sign of
  the dividend; it is exact. It is NaN for an infinite dividend and for a zero divisor,
  and the dividend itself for an infinite divisor.
\<close>

definition js_trunc :: "rat \<Rightarrow> int" where
  "js_trunc q = (if 0 \<le> q then \<lfloor>q\<rfloor> else \<lceil>q\<rceil>)"

definition js_rem :: "rat \<Rightarrow> rat \<Rightarrow> rat" where
  "js_rem x y = x - y * of_int (js_trunc (x / y))"

fun double_rem :: "double \<Rightarrow> double \<Rightarrow> double" where
  "double_rem NaN y = NaN"
| "double_rem x NaN = NaN"
| "double_rem PlusInfinity y = NaN"
| "double_rem MinusInfinity y = NaN"
| "double_rem (Finite a) (Finite b) = (if b = 0 then NaN else Finite (js_rem a b))"
| "double_rem (Finite a) y = Finite a"

fun double_plus :: "double \<Rightarrow> double \<Rightarrow> double" where
  "double_plus NaN y = NaN"
| "double_plus x NaN = NaN"
| "double_plus (Finite a) (Finite b) = round64 (a + b)"
| "double_plus PlusInfinity MinusInfinity = NaN"
| "double_plus MinusInfinity PlusInfinity = NaN"
| "double_plus PlusInfinity y = PlusInfinity"
| "double_plus MinusInfinity y = MinusInfinity"
| "double_plus (Finite a) y = y"

definition binary64 :: "double arith" where
  "binary64 =
     \<lparr>number = round64, multiply = double_times, remainder = double_rem,
      addition = double_plus\<rparr>"

section \<open>index.js: the broker message handler\<close>

text \<open>
  The handler uses three functions of the host: \<^verbatim>\<open>zlib.gunzipSync\<close>, the UTF-8 decoding
  \<^verbatim>\<open>Buffer.toString("utf8")\<close> and \<^verbatim>\<open>JSON.parse\<close>. They are parameters of the model;
  \<open>Inl e\<close> is an exception thrown by the host function.
\<close>

type_synonym byte = "8 word"

record platform =
  gunzipSync :: "byte list \<Rightarrow> exn + byte list"
  toString_utf8 :: "byte list \<Rightarrow> string"
  JSON_parse :: "string \<Rightarrow> exn + json"

text \<open>The clock readings: \<^verbatim>\<open>Date.now()\<close> and the two \<^verbatim>\<open>new Date().toISOString()\<close>.\<close>

record clock =
  date_now :: rat
  iso_logged :: string
  iso_event :: string

text \<open>
  What a handler does to the outside: calls of \<^verbatim>\<open>client.publish\<close>, lines on the console
  and emitted events. \<^verbatim>\<open>io.emit\<close> addresses every connected viewer, \<^verbatim>\<open>socket.emit\<close> the
  viewer of that connection.
\<close>

datatype target = Broadcast | ToSocket nat

datatype log_line =
    Separator
  | SeparatorNL
  | MessageReceived
  | LogTopic string
  | LogTime string
  | LogSize nat
  | RepublishFailed string
  | Republished json

record effects =
  published :: "(json \<times> string) list"
  console :: "log_line list"
  emitted :: "(target \<times> string \<times> json) list"

definition isGzip :: "byte list \<Rightarrow> bool" where
  "isGzip message \<longleftrightarrow> length message \<ge> 2 \<and> message ! 0 = 0x1f \<and> message ! 1 = 0x8b"

text \<open>
  Lines 131 to 142 of index.js: the sniff, the decoding and the parse. The result is
  \<open>(isGzip, jsonString, data)\<close>, or the exception that leaves the handler.
\<close>

definition decode :: "platform \<Rightarrow> byte list \<Rightarrow> exn + (bool \<times> string \<times> json)" where
  "decode P message =
     (let gz = isGzip message in
      case (if gz then
              (case gunzipSync P message of
                 Inl e \<Rightarrow> Inl e
               | Inr plain \<Rightarrow> Inr (toString_utf8 P plain))
            else Inr (toString_utf8 P message)) of
        Inl e \<Rightarrow> Inl e
      | Inr jsonString \<Rightarrow>
          (case JSON_parse P jsonString of
             Inl e \<Rightarrow> Inl e
           | Inr data \<Rightarrow> Inr (gz, jsonString, data)))"

text \<open>The object literal passed to \<^verbatim>\<open>io.emit("mqtt-event", ...)\<close>.\<close>

definition mqtt_event :: "clock \<Rightarrow> string \<Rightarrow> byte list \<Rightarrow> bool \<Rightarrow> string \<Rightarrow> json \<Rightarrow> json" where
  "mqtt_event clk topic message gz jsonString data =
     JObj [(''id'', JNum (date_now clk)),
           (''topic'', JStr topic),
           (''size'', JNum (of_nat (length message))),
           (''isCompressed'', JBool gz),
           (''time'', JStr (iso_event clk)),
           (''raw'', JStr jsonString),
           (''parsed'', data)]"

definition on_message :: "platform \<Rightarrow> clock \<Rightarrow> string \<Rightarrow> byte list \<Rightarrow> exn + effects" where
  "on_message P clk topic message =
     (case decode P message of
        Inl e \<Rightarrow> Inl e
      | Inr (gz, jsonString, data) \<Rightarrow>
          Inr \<lparr>published = [],
               console = [Separator, MessageReceived, LogTopic topic,
                          LogTime (iso_logged clk), LogSize (length message), SeparatorNL],
               emitted = [(Broadcast, ''mqtt-event'',
                           mqtt_event clk topic message gz jsonString data)]\<rparr>)"

text \<open>An event without the two fields that are read from the clock.\<close>

fun without_stamps :: "json \<Rightarrow> json" where
  "without_stamps (JObj kvs) = JObj (filter (\<lambda>kv. fst kv \<noteq> ''id'' \<and> fst kv \<noteq> ''time'') kvs)"
| "without_stamps v = v"

definition unstamped :: "exn + effects \<Rightarrow> exn + (target \<times> string \<times> json) list" where
  "unstamped r =
     (case r of
        Inl e \<Rightarrow> Inl e
      | Inr eff \<Rightarrow> Inr (map (\<lambda>(to, name, ev). (to, name, without_stamps ev)) (emitted eff)))"

section \<open>The earlier version of the message handler (part_000)\<close>

definition on_message_part_000 ::
  "platform \<Rightarrow> clock \<Rightarrow> string \<Rightarrow> byte list \<Rightarrow> exn + effects" where
  "on_message_part_000 P clk topic message =
     (let gz = (length message \<ge> 2 \<and> message ! 0 = 0x1f \<and> message ! 1 = 0x8b) in
      case (if gz then
              (case gunzipSync P message of
                 Inl e \<Rightarrow> Inl e
               | Inr plain \<Rightarrow> Inr (toString_utf8 P plain))
            else Inr (toString_utf8 P message)) of
        Inl e \<Rightarrow> Inl e
      | Inr jsonString \<Rightarrow>
          (case JSON_parse P jsonString of
             Inl e \<Rightarrow> Inl e
           | Inr data \<Rightarrow>
               Inr \<lparr>published = [],
                    console = [Separator, MessageReceived, LogTopic topic,
                               LogTime (iso_logged clk), LogSize (length message),
                               SeparatorNL, SeparatorNL],
                    emitted = [(Broadcast, ''mqtt-event'',
                                JObj [(''id'', JNum (date_now clk)),
                                      (''topic'', JStr topic),
                                      (''size'', JNum (of_nat (length message))),
                                      (''isCompressed'', JBool gz),
                                      (''time'', JStr (iso_event clk)),
                                      (''raw'', JStr jsonString),
                                      (''parsed'', data)])]\<rparr>))"

section \<open>index.js: the republish handler\<close>

text \<open>
  The handler's parameter is the pattern \<^verbatim>\<open>{ topic, payload }\<close>. The argument is whatever
  the viewer sent (\<open>None\<close> when it sent nothing); a property that is missing reads as
  \<^verbatim>\<open>undefined\<close>, and destructuring \<^verbatim>\<open>null\<close> or \<^verbatim>\<open>undefined\<close> raises before the body
  and its \<^verbatim>\<open>try\<close> are entered.
\<close>

fun destructure :: "json option \<Rightarrow> exn + (json option \<times> json option)" where
  "destructure None = Inl TypeError"
| "destructure (Some JNull) = Inl TypeError"
| "destructure (Some (JObj kvs)) = Inr (map_of kvs ''topic'', map_of kvs ''payload'')"
| "destructure (Some v) = Inr (None, None)"

text \<open>\<^verbatim>\<open>!x\<close> is false exactly of the truthy values.\<close>

fun truthy :: "json option \<Rightarrow> bool" where
  "truthy None = False"
| "truthy (Some JNull) = False"
| "truthy (Some (JBool b)) = b"
| "truthy (Some (JNum n)) = (n \<noteq> 0)"
| "truthy (Some (JStr s)) = (s \<noteq> [])"
| "truthy (Some v) = True"

text \<open>
  The broker client's \<^verbatim>\<open>publish(topic, message, opts, callback)\<close>: it calls back without
  an error, calls back with an error, or throws; the strings are the \<^verbatim>\<open>message\<close> of the
  error. \<^verbatim>\<open>JSON.stringify\<close> returns the text or throws (\<open>Inl\<close>, with the error's message).
\<close>

datatype publish_outcome = Acked | Errored string | Thrown string

definition failure :: "string \<Rightarrow> json" where
  "failure msg = JObj [(''success'', JBool False), (''error'', JStr msg)]"

definition success :: "json \<Rightarrow> json" where
  "success topic = JObj [(''success'', JBool True), (''topic'', topic)]"

definition reply :: "nat \<Rightarrow> json \<Rightarrow> target \<times> string \<times> json" where
  "reply socket result = (ToSocket socket, ''republish-result'', result)"

definition to_text :: "(json \<Rightarrow> string + string) \<Rightarrow> json \<Rightarrow> string + string" where
  "to_text stringify payload = (case payload of JStr s \<Rightarrow> Inr s | v \<Rightarrow> stringify v)"

text \<open>
  The body of the handler, inside its \<^verbatim>\<open>try\<close>. A property that the request lacks is
  \<^verbatim>\<open>undefined\<close> and fails the check like any other falsy value. An exception of
  \<^verbatim>\<open>JSON.stringify\<close> or of \<^verbatim>\<open>client.publish\<close> is caught and answered with its message.
\<close>

definition invalid :: "nat \<Rightarrow> effects" where
  "invalid socket =
     \<lparr>published = [], console = [],
      emitted = [reply socket (failure ''Invalid topic or payload'')]\<rparr>"

definition republish_body ::
  "(json \<Rightarrow> string + string) \<Rightarrow> (json \<Rightarrow> string \<Rightarrow> publish_outcome) \<Rightarrow> nat \<Rightarrow>
   json option \<Rightarrow> json option \<Rightarrow> effects" where
  "republish_body stringify publish socket topic payload =
     (case topic of
        None \<Rightarrow> invalid socket
      | Some t \<Rightarrow>
         (case payload of
            None \<Rightarrow> invalid socket
          | Some p \<Rightarrow>
             if \<not> truthy (Some t) \<or> \<not> truthy (Some p) then invalid socket
             else
               (case to_text stringify p of
                  Inl msg \<Rightarrow>
                    \<lparr>published = [], console = [], emitted = [reply socket (failure msg)]\<rparr>
                | Inr message \<Rightarrow>
                    (case publish t message of
                       Errored msg \<Rightarrow>
                         \<lparr>published = [(t, message)], console = [RepublishFailed msg],
                          emitted = [reply socket (failure msg)]\<rparr>
                     | Acked \<Rightarrow>
                         \<lparr>published = [(t, message)], console = [Republished t],
                          emitted = [reply socket (success t)]\<rparr>
                     | Thrown msg \<Rightarrow>
                         \<lparr>published = [(t, message)], console = [],
                          emitted = [reply socket (failure msg)]\<rparr>))))"

definition on_republish_mqtt ::
  "(json \<Rightarrow> string + string) \<Rightarrow> (json \<Rightarrow> string \<Rightarrow> publish_outcome) \<Rightarrow> nat \<Rightarrow>
   json option \<Rightarrow> exn + effects" where
  "on_republish_mqtt stringify publish socket arg =
     (case destructure arg of
        Inl e \<Rightarrow> Inl e
      | Inr (topic, payload) \<Rightarrow> Inr (republish_body stringify publish socket topic payload))"

section \<open>A host for evaluating examples\<close>

text \<open>
  The theorems below hold for every host. To evaluate the handlers on concrete messages
  the host functions are instantiated by tables: on the inputs that the examples use
  they give the answers of the real functions. \<open>sample_gzip\<close> is the gzip stream of
  \<open>sample_plain\<close>, the bytes of \<open>sample_text\<close>, which parses to \<open>sample_tree\<close>;
  \<open>brace_gzip\<close> is the gzip stream of the single byte 123, an opening brace, which
  does not parse; the bare magic prefix does not decompress. \<open>digits_Number\<close> is
  \<^verbatim>\<open>Number\<close> on the non-empty strings of decimal digits (the host's conversion accepts
  further strings, which the examples do not use).
\<close>

definition sample_text :: string where
  \<open>sample_text = ''{"ticket":{"id":42}}''\<close>

definition sample_plain :: "byte list" where
  "sample_plain =
     [123, 34, 116, 105, 99, 107, 101, 116, 34, 58, 123, 34, 105, 100, 34, 58, 52, 50,
      125, 125]"

definition sample_gzip :: "byte list" where
  "sample_gzip =
     [31, 139, 8, 0, 0, 0, 0, 0, 2, 3, 171, 86, 42, 201, 76, 206, 78, 45, 81, 178, 170,
      86, 202, 76, 81, 178, 50, 49, 170, 173, 5, 0, 112, 151, 252, 239, 20, 0, 0, 0]"

definition sample_tree :: json where
  "sample_tree = JObj [(''ticket'', JObj [(''id'', JNum 42)])]"

definition brace_gzip :: "byte list" where
  "brace_gzip = [31, 139, 8, 0, 0, 0, 0, 0, 2, 3, 171, 6, 0, 57, 71, 213, 21, 1, 0, 0, 0]"

definition sample_host :: platform where
  "sample_host =
     \<lparr>gunzipSync =
        (\<lambda>m. if m = sample_gzip then Inr sample_plain
             else if m = brace_gzip then Inr [123]
             else Inl ZlibError),
      toString_utf8 = map (\<lambda>b. char_of (unat b)),
      JSON_parse = (\<lambda>s. if s = sample_text then Inr sample_tree else Inl SyntaxError)\<rparr>"

definition sample_clock :: clock where
  "sample_clock =
     \<lparr>date_now = 1700000000000,
      iso_logged = ''2023-11-14T22:13:20.000Z'',
      iso_event = ''2023-11-14T22:13:20.000Z''\<rparr>"

definition is_digit :: "char \<Rightarrow> bool" where
  "is_digit c \<longleftrightarrow> 48 \<le> (of_char c :: nat) \<and> (of_char c :: nat) \<le> 57"

definition digits_Number :: "string \<Rightarrow> rat option" where
  "digits_Number s =
     (if s \<noteq> [] \<and> list_all is_digit s
      then Some (of_nat (foldl (\<lambda>a c. 10 * a + (of_char c - 48)) 0 s))
      else None)"

definition nested_order :: json where
  "nested_order =
     JObj [(''order'', JObj [(''items'', JArr [JNull, JObj [(''Ticket_ID'', JStr ''5'')]])])]"

definition sample_stringify :: "json \<Rightarrow> string + string" where
  "sample_stringify v = (if v = sample_tree then Inr sample_text else Inr ''null'')"

definition accepting_broker :: "json \<Rightarrow> string \<Rightarrow> publish_outcome" where
  "accepting_broker topic message = Acked"

definition refusing_broker :: "json \<Rightarrow> string \<Rightarrow> publish_outcome" where
  "refusing_broker topic message = Errored ''client disconnecting''"

section \<open>The first loop of findTicketId\<close>

lemma scan_keys_append:
  "scan_keys N (pre @ rest) =
     (case scan_keys N pre of Inr None \<Rightarrow> scan_keys N rest | r \<Rightarrow> r)"
  by (induction pre) (auto split: sum.splits option.splits)

lemma findTicketId_JObj:
  "depth \<le> maxDepth \<Longrightarrow>
   findTicketId N (JObj kvs) depth maxDepth =
     (case scan_keys N kvs of
        Inl e \<Rightarrow> Inl e
      | Inr (Some n) \<Rightarrow> Inr (Some n)
      | Inr None \<Rightarrow> search_children N kvs depth maxDepth)"
  by (subst findTicketId.simps) (simp split: sum.splits option.splits)

lemma check_key_direct:
  assumes "toLowerCase k = ''ticketid'' \<or> toLowerCase k = ''ticket_id''"
    and "numeric N (Some v) = Some a"
  shows "check_key N k v = Inr (Some a)"
  using assms by (auto simp: check_key_def direct_match_def)

lemma check_key_ticketdata_empty:
  "toLowerCase key = ''ticketdata'' \<Longrightarrow> check_key N key (JArr []) = Inl TypeError"
  by (simp add: check_key_def direct_match_def ticket_match_def ticketdata_match_def)

text \<open>
  Claim C2, as stated: in a mapping that holds both a direct key \<^verbatim>\<open>ticketId\<close> and a key
  \<^verbatim>\<open>ticket\<close> with an \<^verbatim>\<open>id\<close>, with different values, the direct key wins whatever the order
  of the keys. The loop tests each key against all three patterns before it moves to the
  next key, so the order decides: in \<^verbatim>\<open>{"ticket":{"id":1},"ticketId":2}\<close> the direct value
  is 2 and the search returns 1.
\<close>

theorem ticket_before_direct_counterexample:
  "findTicketId digits_Number
     (JObj [(''ticket'', JObj [(''id'', JNum 1)]), (''ticketId'', JNum 2)]) 0 10
   = Inr (Some 1)"
  by code_simp

lemma check_key_ticket:
  assumes "toLowerCase k = ''ticket''"
    and "numeric N (map_of members ''id'') = Some b"
  shows "check_key N k (JObj members) = Inr (Some b)"
proof -
  from assms(2) have "not_nullish (map_of members ''id'')"
    by (cases "map_of members ''id''" rule: not_nullish.cases) simp_all
  with assms show ?thesis
    by (simp add: check_key_def direct_match_def ticket_match_def)
qed

text \<open>
  Claim C2, amended: the first key in the enumeration order that matches decides. When no
  key before it matches a pattern or raises (\<open>scan_keys N pre = Inr None\<close>), a direct key
  \<^verbatim>\<open>ticketId\<close> or \<^verbatim>\<open>ticket_id\<close> (in any letter case) with a numeric or numeric-looking value
  wins over everything after it, a \<^verbatim>\<open>ticket\<close> key with another id included; and in the
  same way a \<^verbatim>\<open>ticket\<close> key whose mapping has a numeric or numeric-looking \<^verbatim>\<open>id\<close> wins over
  a direct key that comes after it.
\<close>

theorem first_matching_key_wins:
  assumes "scan_keys N pre = Inr None"
    and "depth \<le> maxDepth"
  shows
    "((toLowerCase k = ''ticketid'' \<or> toLowerCase k = ''ticket_id'') \<and>
      numeric N (Some v) = Some a \<longrightarrow>
        findTicketId N (JObj (pre @ (k, v) # post)) depth maxDepth = Inr (Some a)) \<and>
     (toLowerCase k = ''ticket'' \<and> numeric N (map_of members ''id'') = Some b \<longrightarrow>
        findTicketId N (JObj (pre @ (k, JObj members) # post)) depth maxDepth = Inr (Some b))"
  using assms
  by (auto simp: findTicketId_JObj scan_keys_append check_key_direct check_key_ticket)

theorem first_matching_key_wins_witness:
  "scan_keys digits_Number [(''name'', JStr ''a'')] = Inr None \<and>
   (0::int) \<le> 10 \<and>
   (toLowerCase ''ticketId'' = ''ticketid'' \<or> toLowerCase ''ticketId'' = ''ticket_id'') \<and>
   numeric digits_Number (Some (JStr ''2'')) = Some 2 \<and>
   findTicketId digits_Number
     (JObj [(''name'', JStr ''a''), (''ticketId'', JStr ''2''),
            (''ticket'', JObj [(''id'', JNum 1)])]) 0 10
   = Inr (Some 2) \<and>
   toLowerCase ''Ticket'' = ''ticket'' \<and>
   numeric digits_Number (map_of [(''id'', JNum 1)] ''id'') = Some 1 \<and>
   findTicketId digits_Number
     (JObj [(''name'', JStr ''a''), (''Ticket'', JObj [(''id'', JNum 1)]),
            (''ticketId'', JStr ''2'')]) 0 10
   = Inr (Some 1)"
proof -
  have s: "scan_keys digits_Number [(''name'', JStr ''a'')] = Inr None" by code_simp
  have d: "(0::int) \<le> 10" by simp
  have k: "toLowerCase ''ticketId'' = ''ticketid'' \<or> toLowerCase ''ticketId'' = ''ticket_id''"
    by code_simp
  have v: "numeric digits_Number (Some (JStr ''2'')) = Some 2" by code_simp
  have t: "toLowerCase ''Ticket'' = ''ticket''" by code_simp
  have i: "numeric digits_Number (map_of [(''id'', JNum 1)] ''id'') = Some 1" by simp
  from first_matching_key_wins
         [OF s d, of "''ticketId''" "JStr ''2''" 2 "[(''ticket'', JObj [(''id'', JNum 1)])]"]
       first_matching_key_wins
         [OF s d, of "''Ticket''" _ _ "[(''ticketId'', JStr ''2'')]" "[(''id'', JNum 1)]" 1]
       s d k v t i
  show ?thesis by simp
qed

text \<open>
  Claim C4: a \<^verbatim>\<open>ticketdata\<close> key (in any letter case) that holds an empty sequence is to
  count as a non-match, and the search is to go on. In the code \<^verbatim>\<open>ticketObj[0]\<close> is then
  \<^verbatim>\<open>undefined\<close> and reading its \<^verbatim>\<open>id\<close> raises a TypeError, which ends the whole search:
  whenever the first loop reaches such a key, whatever follows it, the call raises.
\<close>

theorem ticketdata_empty_raises:
  assumes "toLowerCase key = ''ticketdata''"
    and "scan_keys N pre = Inr None"
    and "depth \<le> maxDepth"
  shows "findTicketId N (JObj (pre @ (key, JArr []) # post)) depth maxDepth = Inl TypeError"
  using assms
  by (simp add: findTicketId_JObj scan_keys_append check_key_ticketdata_empty)

theorem ticketdata_empty_raises_witness:
  "toLowerCase ''ticketData'' = ''ticketdata'' \<and>
   scan_keys digits_Number [] = Inr None \<and>
   (0::int) \<le> 10 \<and>
   findTicketId digits_Number
     (JObj [(''ticketData'', JArr []), (''ticketId'', JNum 7)]) 0 10 = Inl TypeError"
proof -
  have k: "toLowerCase ''ticketData'' = ''ticketdata''" by code_simp
  have s: "scan_keys digits_Number [] = Inr None" by simp
  have d: "(0::int) \<le> 10" by simp
  from ticketdata_empty_raises [OF k s d, of "[(''ticketId'', JNum 7)]"] k s d
  show ?thesis by simp
qed

section \<open>The color of a ticket\<close>

subsection \<open>Rounding to the nearest double\<close>

lemma pow2_powi: "pow2 e = 2 powi e"
  by (simp add: pow2_def power_int_def inverse_eq_divide power_one_over)

lemma pow2_pos: "0 < pow2 e"
  by (simp add: pow2_def)

lemma pow2_add: "pow2 (a + b) = pow2 a * pow2 b"
  by (simp add: pow2_powi power_int_add)

lemma pow2_diff: "pow2 (a - b) = pow2 a / pow2 b"
  by (simp add: pow2_powi power_int_diff)

lemma pow2_mono: "a \<le> b \<Longrightarrow> pow2 a \<le> pow2 b"
  by (simp add: pow2_powi power_int_increasing)

lemma pow2_nat: "pow2 (int n) = 2 ^ n"
  by (simp add: pow2_def)

lemma bitlen_bounds:
  "0 < n \<Longrightarrow> 1 \<le> bitlen n \<and> 2 ^ nat (bitlen n - 1) \<le> n \<and> n < 2 ^ nat (bitlen n)"
proof (induction n rule: bitlen.induct)
  case (1 n)
  show ?case
  proof (cases "n = 1")
    case True
    then show ?thesis by (simp add: bitlen.simps [of 1] bitlen.simps [of 0])
  next
    case False
    with "1.prems" have m: "0 < n div 2" by simp
    with "1.IH" "1.prems" have ih: "1 \<le> bitlen (n div 2)"
      "2 ^ nat (bitlen (n div 2) - 1) \<le> n div 2" "n div 2 < 2 ^ nat (bitlen (n div 2))"
      by simp_all
    have b: "bitlen n = 1 + bitlen (n div 2)"
      using "1.prems" by (subst bitlen.simps) simp
    have e: "nat (bitlen (n div 2)) = Suc (nat (bitlen (n div 2) - 1))"
      using ih(1) by simp
    have lo: "2 ^ nat (bitlen (n div 2)) \<le> n"
    proof -
      have "(2::int) ^ nat (bitlen (n div 2)) = 2 * 2 ^ nat (bitlen (n div 2) - 1)"
        by (subst e) simp
      also have "\<dots> \<le> 2 * (n div 2)" using ih(2) by simp
      also have "\<dots> \<le> n" by simp
      finally show ?thesis .
    qed
    have hi: "n < 2 * 2 ^ nat (bitlen (n div 2))"
    proof -
      have "n div 2 + 1 \<le> 2 ^ nat (bitlen (n div 2))" using ih(3) by simp
      then have "2 * (n div 2) + 2 \<le> 2 * 2 ^ nat (bitlen (n div 2))" by simp
      moreover have "n < 2 * (n div 2) + 2" by simp
      ultimately show ?thesis by linarith
    qed
    from ih(1) lo hi show ?thesis
      by (simp add: b nat_add_distrib)
  qed
qed

lemma bitlen_pow2:
  assumes "0 < n"
  shows "pow2 (bitlen n - 1) \<le> of_int n" and "of_int n < pow2 (bitlen n)"
proof -
  from bitlen_bounds [OF assms]
  have b: "1 \<le> bitlen n" "2 ^ nat (bitlen n - 1) \<le> n" "n < 2 ^ nat (bitlen n)"
    by simp_all
  have "pow2 (bitlen n - 1) = of_int (2 ^ nat (bitlen n - 1))"
    using b(1) by (simp add: pow2_def)
  also have "\<dots> \<le> of_int n" using b(2) by (simp only: of_int_le_iff)
  finally show "pow2 (bitlen n - 1) \<le> of_int n" .
  have "(of_int n :: rat) < of_int (2 ^ nat (bitlen n))"
    using b(3) by (simp only: of_int_less_iff)
  also have "\<dots> = pow2 (bitlen n)" using b(1) by (simp add: pow2_def)
  finally show "of_int n < pow2 (bitlen n)" .
qed

lemma ilog2_bounds:
  assumes "0 < a"
  shows "pow2 (ilog2 a) \<le> a" and "a < pow2 (ilog2 a + 1)"
proof -
  obtain p q where pq: "quotient_of a = (p, q)" by (cases "quotient_of a")
  then have q: "0 < q" by (rule quotient_of_denom_pos)
  have a: "a = of_int p / of_int q" using pq by (rule quotient_of_div)
  with assms q have p: "0 < p" by (simp add: zero_less_divide_iff)
  let ?e = "bitlen p - bitlen q"
  have il: "ilog2 a = (if pow2 ?e \<le> a then ?e else ?e - 1)"
    by (simp add: ilog2_def pq)
  have qpos: "(0::rat) < of_int q" using q by simp
  have lo: "pow2 (?e - 1) \<le> a"
  proof -
    have "pow2 (?e - 1) = pow2 (bitlen p - 1) / pow2 (bitlen q)"
      by (simp add: pow2_diff [symmetric] algebra_simps)
    also have "\<dots> \<le> of_int p / pow2 (bitlen q)"
      using bitlen_pow2(1) [OF p] pow2_pos [of "bitlen q"] by (simp add: divide_right_mono)
    also have "\<dots> \<le> of_int p / of_int q"
      using bitlen_pow2(2) [OF q] p qpos by (intro divide_left_mono) (simp_all add: pow2_pos)
    finally show ?thesis by (simp add: a)
  qed
  have hi: "a < pow2 (?e + 1)"
  proof -
    have "a = of_int p / of_int q" by (rule a)
    also have "\<dots> < pow2 (bitlen p) / of_int q"
      using bitlen_pow2(2) [OF p] qpos by (simp add: divide_strict_right_mono)
    also have "\<dots> \<le> pow2 (bitlen p) / pow2 (bitlen q - 1)"
      using bitlen_pow2(1) [OF q] pow2_pos [of "bitlen p"] pow2_pos [of "bitlen q - 1"]
      by (intro divide_left_mono) simp_all
    also have "\<dots> = pow2 (?e + 1)"
      by (simp add: pow2_diff [symmetric] algebra_simps)
    finally show ?thesis .
  qed
  show "pow2 (ilog2 a) \<le> a" using lo by (simp add: il)
  show "a < pow2 (ilog2 a + 1)" using hi by (auto simp: il)
qed

lemma round_half_even_close: "\<bar>of_int (round_half_even q) - q\<bar> \<le> 1 / 2"
proof -
  have "of_int \<lfloor>q\<rfloor> \<le> q" "q < of_int \<lfloor>q\<rfloor> + 1" by linarith+
  then show ?thesis
    by (auto simp: round_half_even_def Let_def abs_le_iff)
qed

lemma round_half_even_nonneg: "0 \<le> q \<Longrightarrow> 0 \<le> round_half_even q"
  by (auto simp: round_half_even_def Let_def intro: add_nonneg_nonneg)

lemma pow2_52: "pow2 52 = 2 ^ 52"
  using pow2_nat [of 52] by simp

lemma round64_rel:
  assumes range: "x = 0 \<or> pow2 (- 1022) \<le> \<bar>x\<bar>"
    and top: "\<bar>x\<bar> \<le> pow2 1023"
  shows "\<exists>r. round64 x = Finite r \<and> \<bar>r - x\<bar> \<le> \<bar>x\<bar> / 2 ^ 53"
proof (cases "x = 0")
  case True
  then show ?thesis by (simp add: round64_def)
next
  case False
  define a where "a = \<bar>x\<bar>"
  define e where "e = max (ilog2 a - 52) (- 1074)"
  define m where "m = round_half_even (a / pow2 e)"
  define r where "r = of_int m * pow2 e"
  have apos: "0 < a" using False by (simp add: a_def)
  have low: "pow2 (- 1022) \<le> a" using range False by (simp add: a_def)
  have ulp: "pow2 e \<le> a / 2 ^ 52"
  proof -
    have "pow2 (ilog2 a - 52) = pow2 (ilog2 a) / 2 ^ 52"
      by (simp add: pow2_diff pow2_52)
    also have "\<dots> \<le> a / 2 ^ 52"
      using ilog2_bounds(1) [OF apos] by (simp add: divide_right_mono)
    finally have 1: "pow2 (ilog2 a - 52) \<le> a / 2 ^ 52" .
    have "pow2 (- 1074) = pow2 (- 1022 - 52)" by simp
    also have "\<dots> = pow2 (- 1022) / 2 ^ 52"
      by (simp only: pow2_diff pow2_52)
    also have "\<dots> \<le> a / 2 ^ 52" using low by (simp add: divide_right_mono)
    finally have 2: "pow2 (- 1074) \<le> a / 2 ^ 52" .
    show ?thesis unfolding e_def max_def using 1 2 by simp
  qed
  have close: "\<bar>r - a\<bar> \<le> pow2 e / 2"
  proof -
    have "r - a = (of_int m - a / pow2 e) * pow2 e"
      using pow2_pos [of e] by (simp add: r_def algebra_simps)
    then have "\<bar>r - a\<bar> = \<bar>of_int m - a / pow2 e\<bar> * pow2 e"
      using pow2_pos [of e] by (simp add: abs_mult)
    also have "\<dots> \<le> (1 / 2) * pow2 e"
      using round_half_even_close [of "a / pow2 e"] pow2_pos [of e]
      unfolding m_def by (intro mult_right_mono) simp_all
    finally show ?thesis by simp
  qed
  have rel: "\<bar>r - a\<bar> \<le> a / 2 ^ 53"
  proof -
    have "pow2 e / 2 \<le> (a / 2 ^ 52) / 2" using ulp by simp
    also have "\<dots> = a / 2 ^ 53" by simp
    finally show ?thesis using close by simp
  qed
  have fin: "r < pow2 1024"
  proof -
    have "r - a \<le> \<bar>r - a\<bar>" by (rule abs_ge_self)
    then have "r - a \<le> a / 2 ^ 53" using rel by (rule order_trans)
    then have "r \<le> a + a / 2 ^ 53" by linarith
    also have "\<dots> < 2 * a" using apos by simp
    also have "\<dots> \<le> 2 * pow2 1023" using top by (simp add: a_def)
    also have "\<dots> = pow2 1024" using pow2_add [of 1 1023] by (simp add: pow2_def)
    finally show ?thesis .
  qed
  have val: "round64 x = Finite (if 0 < x then r else - r)"
    using False fin
    by (simp add: round64_def Let_def a_def [symmetric] e_def [symmetric] m_def [symmetric]
        r_def [symmetric])
  have "\<bar>(if 0 < x then r else - r) - x\<bar> = \<bar>r - a\<bar>"
    using False by (auto simp: a_def)
  with rel val show ?thesis by (simp add: a_def)
qed

lemma pow2_code [code]:
  "pow2 e =
     (if e < 0 then 1 / pow2 (- e)
      else if e = 0 then 1
      else (let h = pow2 (e div 2) in if even e then h * h else 2 * h * h))"
proof -
  have neg: "pow2 e = 1 / pow2 (- e)" if "e < 0"
    using that by (simp add: pow2_def)
  have half: "pow2 e = pow2 (e div 2) * pow2 (e div 2)" if "even e"
  proof -
    from that have "e = e div 2 + e div 2" by presburger
    then show ?thesis using pow2_add [of "e div 2" "e div 2"] by simp
  qed
  have odd: "pow2 e = 2 * pow2 (e div 2) * pow2 (e div 2)" if "odd e"
  proof -
    from that have "e = 1 + (e div 2 + e div 2)" by presburger
    then have "pow2 e = pow2 1 * (pow2 (e div 2) * pow2 (e div 2))"
      using pow2_add [of 1 "e div 2 + e div 2"] pow2_add [of "e div 2" "e div 2"] by simp
    then show ?thesis by (simp add: pow2_def)
  qed
  show ?thesis
    using neg half odd by (auto simp: Let_def pow2_def)
qed

lemma round64_360: "round64 360 = Finite 360"
  by code_simp

lemma round64_golden: "round64 golden = Finite (5566755282872657 / 9007199254740992)"
  by code_simp

lemma hue_counter_1: "getTicketColor binary64 (Some (Finite 1000000000000000)) =
     Hsl (Finite 8) (Finite 65) (Finite 55)"
  by code_simp

lemma hue_counter_2: "getTicketColor binary64 (Some (Finite 1000000000000001)) =
     Hsl (Finite 232) (Finite 66) (Finite 56)"
  by code_simp

lemma no_step: "\<forall>k::int. (232::rat) - 8 \<noteq> 618033988749895 / 1000000000000000 * 360 + 360 * of_int k"
proof
  fix k :: int
  show "(232::rat) - 8 \<noteq> 618033988749895 / 1000000000000000 * 360 + 360 * of_int k"
  proof
    assume "(232::rat) - 8 = 618033988749895 / 1000000000000000 * 360 + 360 * of_int k"
    then have "(of_int k :: rat) = (224 - 618033988749895 / 1000000000000000 * 360) / 360"
      by simp
    then have "0 < (of_int k :: rat)" "(of_int k :: rat) < 1" by simp_all
    then have "0 < k" "k < 1" by simp_all
    then show False by simp
  qed
qed

text \<open>
  Claim C8, as stated: the hue of a present id equals \<open>(id * 0.6180339887\<dots> * 360) mod 360\<close>,
  so that consecutive integer ids differ in hue by the golden-ratio step modulo 360. The
  function computes with doubles and both products are rounded: the ids \<open>10 ^ 15\<close> and
  \<open>10 ^ 15 + 1\<close> get the hues 8 and 232, and their difference 224 is not the step
  \<open>222.4922\<dots>\<close> plus a multiple of 360.
\<close>

theorem golden_step_counterexample:
  "getTicketColor binary64 (Some (Finite 1000000000000000)) =
     Hsl (Finite 8) (Finite 65) (Finite 55) \<and>
   getTicketColor binary64 (Some (Finite 1000000000000001)) =
     Hsl (Finite 232) (Finite 66) (Finite 56) \<and>
   (\<forall>k::int. (232::rat) - 8 \<noteq> 618033988749895 / 1000000000000000 * 360 + 360 * of_int k)"
  using hue_counter_1 hue_counter_2 no_step by (intro conjI)

subsection \<open>The error of the hue\<close>

lemma rel_trans:
  fixes a b c u v :: rat
  assumes "\<bar>c - b\<bar> \<le> v * \<bar>b\<bar>" and "\<bar>b - a\<bar> \<le> u * \<bar>a\<bar>" and "0 \<le> v"
  shows "\<bar>c - a\<bar> \<le> (u + v + u * v) * \<bar>a\<bar>"
proof -
  have "\<bar>b\<bar> \<le> \<bar>a\<bar> + \<bar>b - a\<bar>" by simp
  with assms(2) have "\<bar>b\<bar> \<le> \<bar>a\<bar> + u * \<bar>a\<bar>" by linarith
  with assms(3) have "v * \<bar>b\<bar> \<le> v * (\<bar>a\<bar> + u * \<bar>a\<bar>)" by (simp add: mult_left_mono)
  with assms(1) have 1: "\<bar>c - b\<bar> \<le> v * (\<bar>a\<bar> + u * \<bar>a\<bar>)" by linarith
  have "\<bar>c - a\<bar> \<le> \<bar>c - b\<bar> + \<bar>b - a\<bar>" by simp
  with 1 assms(2) have "\<bar>c - a\<bar> \<le> v * (\<bar>a\<bar> + u * \<bar>a\<bar>) + u * \<bar>a\<bar>" by linarith
  then show ?thesis by (simp add: algebra_simps)
qed

lemma rel_mult:
  fixes a a' b b' u v :: rat
  assumes "\<bar>a' - a\<bar> \<le> u * \<bar>a\<bar>" and "\<bar>b' - b\<bar> \<le> v * \<bar>b\<bar>" and "0 \<le> u" and "0 \<le> v"
  shows "\<bar>a' * b' - a * b\<bar> \<le> (u + v + u * v) * \<bar>a * b\<bar>"
proof -
  have eq: "a' * b' - a * b = (a' - a) * b + a * (b' - b) + (a' - a) * (b' - b)"
    by (simp add: algebra_simps)
  have 1: "\<bar>(a' - a) * b\<bar> \<le> u * \<bar>a\<bar> * \<bar>b\<bar>"
    using assms(1) by (simp add: abs_mult mult_right_mono)
  have 2: "\<bar>a * (b' - b)\<bar> \<le> \<bar>a\<bar> * (v * \<bar>b\<bar>)"
    using assms(2) by (simp add: abs_mult mult_left_mono)
  have 3: "\<bar>(a' - a) * (b' - b)\<bar> \<le> (u * \<bar>a\<bar>) * (v * \<bar>b\<bar>)"
    unfolding abs_mult using assms(1,2) by (intro mult_mono) simp_all
  have "\<bar>a' * b' - a * b\<bar> \<le> \<bar>(a' - a) * b\<bar> + \<bar>a * (b' - b)\<bar> + \<bar>(a' - a) * (b' - b)\<bar>"
    unfolding eq by (intro order_trans [OF abs_triangle_ineq] add_mono order_refl)
  with 1 2 3 have "\<bar>a' * b' - a * b\<bar> \<le> u * \<bar>a\<bar> * \<bar>b\<bar> + \<bar>a\<bar> * (v * \<bar>b\<bar>) + (u * \<bar>a\<bar>) * (v * \<bar>b\<bar>)"
    by linarith
  then show ?thesis by (simp add: abs_mult algebra_simps)
qed

lemma js_rem_bounds:
  assumes "0 < y"
  shows "\<bar>js_rem x y\<bar> < y" and "0 \<le> x \<Longrightarrow> 0 \<le> js_rem x y" and "x \<le> 0 \<Longrightarrow> js_rem x y \<le> 0"
proof -
  have fl: "of_int \<lfloor>x / y\<rfloor> * y \<le> x" "x < (of_int \<lfloor>x / y\<rfloor> + 1) * y"
    using assms floor_correct [of "x / y"]
    by (simp_all add: pos_le_divide_eq [symmetric] pos_divide_less_eq [symmetric])
  have ce: "x \<le> of_int \<lceil>x / y\<rceil> * y" "(of_int \<lceil>x / y\<rceil> - 1) * y < x"
    using assms ceiling_correct [of "x / y"]
    by (simp_all add: pos_divide_le_eq [symmetric] pos_less_divide_eq [symmetric])
  have nn: "0 \<le> x / y \<longleftrightarrow> 0 \<le> x" using assms by (simp add: zero_le_divide_iff)
  show "\<bar>js_rem x y\<bar> < y"
    using fl ce nn by (auto simp: js_rem_def js_trunc_def abs_less_iff algebra_simps)
  show "0 \<le> x \<Longrightarrow> 0 \<le> js_rem x y"
    using fl nn by (simp add: js_rem_def js_trunc_def algebra_simps)
  show "x \<le> 0 \<Longrightarrow> js_rem x y \<le> 0"
    using fl ce nn by (auto simp: js_rem_def js_trunc_def algebra_simps)
qed

lemma pow2_tiny: "pow2 (- 1022) \<le> 1 / 8"
proof -
  have "pow2 (- 1022) \<le> pow2 (- 3)" by (rule pow2_mono) simp
  then show ?thesis by (simp add: pow2_def)
qed

lemma pow2_huge: "x \<le> 2 ^ 72 \<Longrightarrow> x \<le> pow2 1023"
proof -
  assume "x \<le> 2 ^ 72"
  moreover have "pow2 72 \<le> pow2 1023" by (rule pow2_mono) simp
  moreover have "pow2 72 = 2 ^ 72" using pow2_nat [of 72] by simp
  ultimately show ?thesis by simp
qed

lemma near_bounds:
  fixes a b :: rat
  assumes "\<bar>b - a\<bar> \<le> \<bar>a\<bar> / 2 ^ 53"
  shows "\<bar>a\<bar> / 2 \<le> \<bar>b\<bar>" and "\<bar>b\<bar> \<le> 2 * \<bar>a\<bar>"
proof -
  have 1: "\<bar>a\<bar> / 2 ^ 53 \<le> \<bar>a\<bar> / 2" by (intro divide_left_mono) simp_all
  have 2: "\<bar>a\<bar> \<le> \<bar>b\<bar> + \<bar>b - a\<bar>" by simp
  have 3: "\<bar>b\<bar> \<le> \<bar>a\<bar> + \<bar>b - a\<bar>" by simp
  from assms 1 2 show "\<bar>a\<bar> / 2 \<le> \<bar>b\<bar>" by linarith
  from assms 1 3 show "\<bar>b\<bar> \<le> 2 * \<bar>a\<bar>" by linarith
qed

lemma hue_close:
  fixes i :: rat
  assumes dom: "i = 0 \<or> 1 \<le> \<bar>i\<bar>" and top: "\<bar>i\<bar> \<le> 2 ^ 60"
  shows "\<exists>h s l. \<exists>t::int.
           getTicketColor binary64 (Some (Finite i)) = Hsl (Finite h) s l \<and>
           \<bar>h\<bar> < 360 \<and> 0 \<le> h * i \<and>
           \<bar>h - (i * (618033988749895 / 1000000000000000) * 360 - 360 * of_int t)\<bar>
             \<le> \<bar>i\<bar> / 2 ^ 43"
proof -
  define L :: rat where "L = 618033988749895 / 1000000000000000"
  define G :: rat where "G = 5566755282872657 / 9007199254740992"
  define u :: rat where "u = 1 / 2 ^ 53"
  define u1 where "u1 = u + u + u * u"
  define u2 where "u2 = u1 + u + u1 * u"
  define u3 where "u3 = u2 + u + u2 * u"
  have u0: "0 \<le> u" by (simp add: u_def)
  have GL: "\<bar>G - L\<bar> \<le> u * \<bar>L\<bar>" by (simp add: G_def L_def u_def)
  have rg: "round64 golden = Finite G" unfolding G_def by (rule round64_golden)
  have iu: "\<bar>i - i\<bar> \<le> u * \<bar>i\<bar>" using u0 by simp
  \<comment> \<open>the first product\<close>
  have a1: "\<bar>i * G - i * L\<bar> \<le> u1 * \<bar>i * L\<bar>"
    unfolding u1_def using iu GL u0 u0 by (rule rel_mult)
  have absG: "\<bar>i * G\<bar> = \<bar>i\<bar> * G" by (simp add: abs_mult G_def)
  have "i * G = 0 \<or> pow2 (- 1022) \<le> \<bar>i * G\<bar>"
  proof (cases "i = 0")
    case True
    then show ?thesis by simp
  next
    case False
    with dom have "1 \<le> \<bar>i\<bar>" by simp
    then have "1 / 8 \<le> \<bar>i\<bar> * G" by (simp add: G_def)
    with pow2_tiny show ?thesis by (simp add: absG)
  qed
  moreover have "\<bar>i * G\<bar> \<le> pow2 1023"
  proof (rule pow2_huge)
    have "\<bar>i\<bar> * G \<le> \<bar>i\<bar>" by (simp add: G_def)
    also have "\<dots> \<le> 2 ^ 72" using top by simp
    finally show "\<bar>i * G\<bar> \<le> 2 ^ 72" by (simp add: absG)
  qed
  ultimately obtain p where p: "round64 (i * G) = Finite p"
      "\<bar>p - i * G\<bar> \<le> \<bar>i * G\<bar> / 2 ^ 53"
    using round64_rel [of "i * G"] by blast
  have pu: "\<bar>p - i * G\<bar> \<le> u * \<bar>i * G\<bar>" using p(2) by (simp add: u_def)
  have a2: "\<bar>p - i * L\<bar> \<le> u2 * \<bar>i * L\<bar>"
    unfolding u2_def using pu a1 u0 by (rule rel_trans)
  have plo: "\<bar>i * G\<bar> / 2 \<le> \<bar>p\<bar>" and phi: "\<bar>p\<bar> \<le> 2 * \<bar>i * G\<bar>"
    using near_bounds [OF p(2)] by simp_all
  \<comment> \<open>the second product\<close>
  have "p * 360 = 0 \<or> pow2 (- 1022) \<le> \<bar>p * 360\<bar>"
  proof (cases "i = 0")
    case True
    with p(2) show ?thesis by simp
  next
    case False
    with dom have "1 \<le> \<bar>i\<bar>" by simp
    then have "1 / 4 \<le> \<bar>i\<bar> * G" by (simp add: G_def)
    with plo have "1 / 8 \<le> \<bar>p\<bar>" by (simp add: absG)
    then have "1 / 8 \<le> \<bar>p * 360\<bar>" by (simp add: abs_mult)
    with pow2_tiny show ?thesis by simp
  qed
  moreover have "\<bar>p * 360\<bar> \<le> pow2 1023"
  proof (rule pow2_huge)
    have "\<bar>i\<bar> * G \<le> \<bar>i\<bar>" by (simp add: G_def)
    with phi top have "\<bar>p\<bar> \<le> 2 ^ 62" by (simp add: absG)
    then show "\<bar>p * 360\<bar> \<le> 2 ^ 72" by (simp add: abs_mult)
  qed
  ultimately obtain X where X: "round64 (p * 360) = Finite X"
      "\<bar>X - p * 360\<bar> \<le> \<bar>p * 360\<bar> / 2 ^ 53"
    using round64_rel [of "p * 360"] by blast
  have Xu: "\<bar>X - p * 360\<bar> \<le> u * \<bar>p * 360\<bar>" using X(2) by (simp add: u_def)
  have eq: "p * 360 - i * L * 360 = (p - i * L) * 360" by (simp add: algebra_simps)
  have "\<bar>p * 360 - i * L * 360\<bar> = \<bar>(p - i * L) * 360\<bar>" by (simp only: eq)
  also have "\<dots> = \<bar>p - i * L\<bar> * \<bar>360\<bar>" by (rule abs_mult)
  also have "\<dots> = 360 * \<bar>p - i * L\<bar>" by simp
  also have "\<dots> \<le> 360 * (u2 * \<bar>i * L\<bar>)" using a2 by simp
  also have "\<dots> = u2 * \<bar>i * L * 360\<bar>" by (simp add: abs_mult)
  finally have a3: "\<bar>p * 360 - i * L * 360\<bar> \<le> u2 * \<bar>i * L * 360\<bar>" .
  have a4: "\<bar>X - i * L * 360\<bar> \<le> u3 * \<bar>i * L * 360\<bar>"
    unfolding u3_def using Xu a3 u0 by (rule rel_trans)
  have T: "\<bar>i * L * 360\<bar> = \<bar>i\<bar> * (L * 360)" by (simp add: abs_mult L_def)
  have num: "u3 * (L * 360) \<le> 1 / 2 ^ 43" and u31: "u3 < 1" and u3n: "0 \<le> u3"
    by (simp_all add: u3_def u2_def u1_def u_def L_def)
  have "u3 * \<bar>i * L * 360\<bar> = \<bar>i\<bar> * (u3 * (L * 360))" by (simp add: T)
  also have "\<dots> \<le> \<bar>i\<bar> * (1 / 2 ^ 43)" using num by (intro mult_left_mono) simp_all
  finally have bound: "\<bar>X - i * L * 360\<bar> \<le> \<bar>i\<bar> / 2 ^ 43" using a4 by simp
  \<comment> \<open>the remainder\<close>
  define h where "h = js_rem X 360"
  define t where "t = js_trunc (X / 360)"
  have ht: "h = X - 360 * of_int t" by (simp add: h_def t_def js_rem_def)
  have hb: "\<bar>h\<bar> < 360" unfolding h_def by (rule js_rem_bounds) simp
  have sign: "0 \<le> h * i"
  proof (cases "0 \<le> i")
    case True
    then have "0 \<le> i * L * 360" by (simp add: L_def)
    with a4 have "(1 - u3) * (i * L * 360) \<le> X" by (simp add: abs_le_iff algebra_simps)
    moreover have "0 \<le> (1 - u3) * (i * L * 360)"
    proof (rule mult_nonneg_nonneg)
      show "0 \<le> 1 - u3" using u31 by simp
      show "0 \<le> i * L * 360" by fact
    qed
    ultimately have "0 \<le> X" by linarith
    then have "0 \<le> h" unfolding h_def by (intro js_rem_bounds) simp_all
    with True show ?thesis by simp
  next
    case False
    then have neg: "i * L * 360 \<le> 0" by (simp add: L_def mult_le_0_iff)
    with a4 have "X \<le> (1 - u3) * (i * L * 360)" by (simp add: abs_le_iff algebra_simps)
    moreover have "(1 - u3) * (i * L * 360) \<le> 0"
    proof (rule mult_nonneg_nonpos)
      show "0 \<le> 1 - u3" using u31 by simp
      show "i * L * 360 \<le> 0" by fact
    qed
    ultimately have "X \<le> 0" by linarith
    then have "h \<le> 0" unfolding h_def by (intro js_rem_bounds) simp_all
    with False show ?thesis by (simp add: mult_nonneg_nonneg zero_le_mult_iff)
  qed
  have "h - (i * L * 360 - 360 * of_int t) = X - i * L * 360" by (simp add: ht)
  then have close: "\<bar>h - (i * L * 360 - 360 * of_int t)\<bar> \<le> \<bar>i\<bar> / 2 ^ 43"
    using bound by (simp only:)
  have col: "getTicketColor binary64 (Some (Finite i)) =
      Hsl (Finite h)
        (double_plus (round64 65) (double_rem (Finite i) (round64 20)))
        (double_plus (round64 45) (double_rem (Finite i) (round64 15)))"
    by (simp add: getTicketColor_def binary64_def rg round64_360 p(1) X(1) h_def)
  from col hb sign close show ?thesis unfolding L_def by blast
qed

text \<open>
  Claim C8, amended: \<open>getTicketColor\<close> reads nothing but its argument and writes nothing,
  so it is a function of the id alone and repeated calls agree; an absent id gives the
  fixed gray \<^verbatim>\<open>#6b7280\<close>, whatever the arithmetic; and for an integer id \<open>n\<close> with
  \<open>\<bar>n\<bar> \<le> 2 ^ 53\<close> the hue, computed with doubles as \<^verbatim>\<open>((n * 0.618033988749895) * 360) % 360\<close>,
  is a finite number of magnitude below 360 with the sign of \<open>n\<close>, which differs from
  \<open>n * 0.618033988749895 * 360\<close> less a multiple of 360 by at most \<open>\<bar>n\<bar> / 2 ^ 43\<close>. The hues
  of \<open>n\<close> and \<open>n + 1\<close> therefore differ by the golden-ratio step
  \<open>0.618033988749895 * 360\<close> modulo 360 up to \<open>(2 * \<bar>n\<bar> + 1) / 2 ^ 43\<close>, and not exactly.
\<close>

theorem hue_golden_step_rounded:
  fixes n :: int
  assumes "\<bar>n\<bar> \<le> 2 ^ 53"
  shows
    "getTicketColor A None = Hex ''#6b7280'' \<and>
     (\<exists>h s l h' s' l'.
        getTicketColor binary64 (Some (Finite (of_int n))) = Hsl (Finite h) s l \<and>
        getTicketColor binary64 (Some (Finite (of_int n + 1))) = Hsl (Finite h') s' l' \<and>
        \<bar>h\<bar> < 360 \<and> 0 \<le> h * of_int n \<and>
        \<bar>h'\<bar> < 360 \<and> 0 \<le> h' * (of_int n + 1) \<and>
        (\<exists>t::int.
           \<bar>h - (of_int n * (618033988749895 / 1000000000000000) * 360 - 360 * of_int t)\<bar>
             \<le> \<bar>of_int n\<bar> / 2 ^ 43) \<and>
        (\<exists>k::int.
           \<bar>h' - h - 618033988749895 / 1000000000000000 * 360 - 360 * of_int k\<bar>
             \<le> (2 * \<bar>of_int n\<bar> + 1) / 2 ^ 43))"
proof
  show "getTicketColor A None = Hex ''#6b7280''" by (simp add: getTicketColor_def)
next
  define L :: rat where "L = 618033988749895 / 1000000000000000"
  let ?i = "of_int n :: rat" and ?j = "of_int (n + 1) :: rat"
  have j: "?j = ?i + 1" by simp
  have di: "?i = 0 \<or> 1 \<le> \<bar>?i\<bar>"
  proof (cases "n = 0")
    case False
    then have "1 \<le> \<bar>n\<bar>" by simp
    then have "(1::rat) \<le> of_int \<bar>n\<bar>" by (simp only: of_int_1_le_iff)
    then show ?thesis by simp
  qed simp
  have dj: "?j = 0 \<or> 1 \<le> \<bar>?j\<bar>"
  proof (cases "n + 1 = 0")
    case True
    then show ?thesis by (simp only: of_int_0) simp
  next
    case False
    then have "1 \<le> \<bar>n + 1\<bar>" by simp
    then have "(1::rat) \<le> of_int \<bar>n + 1\<bar>" by (simp only: of_int_1_le_iff)
    then show ?thesis by simp
  qed
  have "of_int \<bar>n\<bar> \<le> (of_int (2 ^ 53) :: rat)" using assms by (simp only: of_int_le_iff)
  then have ti': "\<bar>?i\<bar> \<le> 2 ^ 53" by simp
  then have ti: "\<bar>?i\<bar> \<le> 2 ^ 60" by simp
  have "\<bar>?j\<bar> \<le> \<bar>?i\<bar> + 1" unfolding j by (rule order_trans [OF abs_triangle_ineq]) simp
  with ti' have tj: "\<bar>?j\<bar> \<le> 2 ^ 60" and ji: "\<bar>?j\<bar> \<le> \<bar>?i\<bar> + 1" by simp_all
  from hue_close [OF di ti] obtain h s l and t :: int where
    a: "getTicketColor binary64 (Some (Finite ?i)) = Hsl (Finite h) s l" "\<bar>h\<bar> < 360" "0 \<le> h * ?i"
       "\<bar>h - (?i * L * 360 - 360 * of_int t)\<bar> \<le> \<bar>?i\<bar> / 2 ^ 43"
    unfolding L_def by blast
  from hue_close [OF dj tj] obtain h' s' l' and t' :: int where
    b: "getTicketColor binary64 (Some (Finite ?j)) = Hsl (Finite h') s' l'" "\<bar>h'\<bar> < 360" "0 \<le> h' * ?j"
       "\<bar>h' - (?j * L * 360 - 360 * of_int t')\<bar> \<le> \<bar>?j\<bar> / 2 ^ 43"
    unfolding L_def by blast
  have "h' - h - L * 360 - 360 * of_int (t - t') =
        (h' - (?j * L * 360 - 360 * of_int t')) - (h - (?i * L * 360 - 360 * of_int t))"
    unfolding j by (simp add: algebra_simps)
  also have "\<bar>\<dots>\<bar> \<le> \<bar>h' - (?j * L * 360 - 360 * of_int t')\<bar> +
                     \<bar>h - (?i * L * 360 - 360 * of_int t)\<bar>"
    by (rule abs_triangle_ineq4)
  also have "\<dots> \<le> \<bar>?j\<bar> / 2 ^ 43 + \<bar>?i\<bar> / 2 ^ 43" using a(4) b(4) by (rule add_mono [rotated])
  also have "\<dots> \<le> (2 * \<bar>?i\<bar> + 1) / 2 ^ 43" using ji by (simp add: field_simps)
  finally have step: "\<bar>h' - h - L * 360 - 360 * of_int (t - t')\<bar> \<le> (2 * \<bar>?i\<bar> + 1) / 2 ^ 43" .
  from a b step show "\<exists>h s l h' s' l'.
        getTicketColor binary64 (Some (Finite (of_int n))) = Hsl (Finite h) s l \<and>
        getTicketColor binary64 (Some (Finite (of_int n + 1))) = Hsl (Finite h') s' l' \<and>
        \<bar>h\<bar> < 360 \<and> 0 \<le> h * of_int n \<and>
        \<bar>h'\<bar> < 360 \<and> 0 \<le> h' * (of_int n + 1) \<and>
        (\<exists>t::int.
           \<bar>h - (of_int n * (618033988749895 / 1000000000000000) * 360 - 360 * of_int t)\<bar>
             \<le> \<bar>of_int n\<bar> / 2 ^ 43) \<and>
        (\<exists>k::int.
           \<bar>h' - h - 618033988749895 / 1000000000000000 * 360 - 360 * of_int k\<bar>
             \<le> (2 * \<bar>of_int n\<bar> + 1) / 2 ^ 43)"
    unfolding L_def j by blast
qed

theorem hue_golden_step_rounded_witness:
  "\<bar>42 :: int\<bar> \<le> 2 ^ 53 \<and>
   (\<exists>h s l h' s' l'.
        getTicketColor binary64 (Some (Finite 42)) = Hsl (Finite h) s l \<and>
        getTicketColor binary64 (Some (Finite 43)) = Hsl (Finite h') s' l' \<and>
        \<bar>h\<bar> < 360 \<and> 0 \<le> h * 42 \<and> \<bar>h'\<bar> < 360 \<and> 0 \<le> h' * 43 \<and>
        (\<exists>t::int.
           \<bar>h - (42 * (618033988749895 / 1000000000000000) * 360 - 360 * of_int t)\<bar>
             \<le> 42 / 2 ^ 43) \<and>
        (\<exists>k::int.
           \<bar>h' - h - 618033988749895 / 1000000000000000 * 360 - 360 * of_int k\<bar>
             \<le> 85 / 2 ^ 43))"
proof -
  have b: "\<bar>42 :: int\<bar> \<le> 2 ^ 53" by simp
  from hue_golden_step_rounded [OF b, of binary64] b show ?thesis by simp
qed

section \<open>Republishing\<close>

text \<open>
  What the handler does with a request that its parameter pattern can take apart, an
  object whose \<^verbatim>\<open>topic\<close> and \<^verbatim>\<open>payload\<close> may be missing: when the topic or the payload is
  absent or the empty string, the result is
  \<^verbatim>\<open>{success: false, error: "Invalid topic or payload"}\<close> and \<^verbatim>\<open>client.publish\<close> is not
  called; when both pass the check and the broker acknowledges, the result is
  \<^verbatim>\<open>{success: true, topic}\<close>; when the broker calls back with an error, the result is
  \<^verbatim>\<open>{success: false, error}\<close> with the broker's message; and in every case exactly one
  result is emitted, on the socket of the requesting viewer.
\<close>

theorem republish_one_result:
  assumes "destructure arg = Inr (topic, payload)"
  shows
    "(topic = None \<or> topic = Some (JStr []) \<or> payload = None \<or> payload = Some (JStr []) \<longrightarrow>
        on_republish_mqtt stringify publish socket arg =
          Inr \<lparr>published = [], console = [],
               emitted = [(ToSocket socket, ''republish-result'',
                           JObj [(''success'', JBool False),
                                 (''error'', JStr ''Invalid topic or payload'')])]\<rparr>) \<and>
     (\<forall>t p message.
        topic = Some t \<and> payload = Some p \<and> truthy topic \<and> truthy payload \<and>
        to_text stringify p = Inr message \<longrightarrow>
          (publish t message = Acked \<longrightarrow>
             (\<exists>eff. on_republish_mqtt stringify publish socket arg = Inr eff \<and>
                published eff = [(t, message)] \<and>
                emitted eff = [(ToSocket socket, ''republish-result'',
                                JObj [(''success'', JBool True), (''topic'', t)])])) \<and>
          (\<forall>reason. publish t message = Errored reason \<longrightarrow>
             (\<exists>eff. on_republish_mqtt stringify publish socket arg = Inr eff \<and>
                published eff = [(t, message)] \<and>
                emitted eff = [(ToSocket socket, ''republish-result'',
                                JObj [(''success'', JBool False), (''error'', JStr reason)])]))) \<and>
     (\<exists>eff result. on_republish_mqtt stringify publish socket arg = Inr eff \<and>
        emitted eff = [(ToSocket socket, ''republish-result'', result)])"
proof (intro conjI)
  show "topic = None \<or> topic = Some (JStr []) \<or> payload = None \<or> payload = Some (JStr []) \<longrightarrow>
        on_republish_mqtt stringify publish socket arg =
          Inr \<lparr>published = [], console = [],
               emitted = [(ToSocket socket, ''republish-result'',
                           JObj [(''success'', JBool False),
                                 (''error'', JStr ''Invalid topic or payload'')])]\<rparr>"
    using assms
    by (auto simp: on_republish_mqtt_def republish_body_def invalid_def reply_def failure_def
        split: option.splits)
next
  show "\<forall>t p message.
        topic = Some t \<and> payload = Some p \<and> truthy topic \<and> truthy payload \<and>
        to_text stringify p = Inr message \<longrightarrow>
          (publish t message = Acked \<longrightarrow>
             (\<exists>eff. on_republish_mqtt stringify publish socket arg = Inr eff \<and>
                published eff = [(t, message)] \<and>
                emitted eff = [(ToSocket socket, ''republish-result'',
                                JObj [(''success'', JBool True), (''topic'', t)])])) \<and>
          (\<forall>reason. publish t message = Errored reason \<longrightarrow>
             (\<exists>eff. on_republish_mqtt stringify publish socket arg = Inr eff \<and>
                published eff = [(t, message)] \<and>
                emitted eff = [(ToSocket socket, ''republish-result'',
                                JObj [(''success'', JBool False), (''error'', JStr reason)])]))"
    using assms
    by (auto simp: on_republish_mqtt_def republish_body_def invalid_def reply_def failure_def
        success_def)
next
  show "\<exists>eff result. on_republish_mqtt stringify publish socket arg = Inr eff \<and>
        emitted eff = [(ToSocket socket, ''republish-result'', result)]"
    using assms
    by (simp add: on_republish_mqtt_def republish_body_def invalid_def reply_def
        split: option.splits sum.splits publish_outcome.splits)
qed

theorem republish_one_result_witness:
  "destructure (Some (JObj [(''topic'', JStr []), (''payload'', JStr ''x'')])) =
     Inr (Some (JStr []), Some (JStr ''x'')) \<and>
   on_republish_mqtt sample_stringify accepting_broker 7
       (Some (JObj [(''topic'', JStr []), (''payload'', JStr ''x'')])) =
     Inr \<lparr>published = [], console = [],
          emitted = [(ToSocket 7, ''republish-result'',
                      JObj [(''success'', JBool False),
                            (''error'', JStr ''Invalid topic or payload'')])]\<rparr> \<and>
   destructure (Some (JObj [(''topic'', JStr ''t''), (''payload'', JStr ''x'')])) =
     Inr (Some (JStr ''t''), Some (JStr ''x'')) \<and>
   truthy (Some (JStr ''t'')) \<and> truthy (Some (JStr ''x'')) \<and>
   to_text sample_stringify (JStr ''x'') = Inr ''x'' \<and>
   accepting_broker (JStr ''t'') ''x'' = Acked \<and>
   (\<exists>eff. on_republish_mqtt sample_stringify accepting_broker 7
             (Some (JObj [(''topic'', JStr ''t''), (''payload'', JStr ''x'')])) = Inr eff \<and>
      published eff = [(JStr ''t'', ''x'')] \<and>
      emitted eff = [(ToSocket 7, ''republish-result'',
                      JObj [(''success'', JBool True), (''topic'', JStr ''t'')])]) \<and>
   refusing_broker (JStr ''t'') ''x'' = Errored ''client disconnecting'' \<and>
   (\<exists>eff. on_republish_mqtt sample_stringify refusing_broker 7
             (Some (JObj [(''topic'', JStr ''t''), (''payload'', JStr ''x'')])) = Inr eff \<and>
      published eff = [(JStr ''t'', ''x'')] \<and>
      emitted eff = [(ToSocket 7, ''republish-result'',
                      JObj [(''success'', JBool False),
                            (''error'', JStr ''client disconnecting'')])])"
proof -
  have d1: "destructure (Some (JObj [(''topic'', JStr []), (''payload'', JStr ''x'')])) =
     Inr (Some (JStr []), Some (JStr ''x''))" by simp
  have d2: "destructure (Some (JObj [(''topic'', JStr ''t''), (''payload'', JStr ''x'')])) =
     Inr (Some (JStr ''t''), Some (JStr ''x''))" by simp
  have tx: "to_text sample_stringify (JStr ''x'') = Inr ''x''" by (simp add: to_text_def)
  have a: "accepting_broker (JStr ''t'') ''x'' = Acked" by (simp add: accepting_broker_def)
  have r: "refusing_broker (JStr ''t'') ''x'' = Errored ''client disconnecting''"
    by (simp add: refusing_broker_def)
  from republish_one_result [OF d1, of sample_stringify accepting_broker 7]
       republish_one_result [OF d2, of sample_stringify accepting_broker 7]
       republish_one_result [OF d2, of sample_stringify refusing_broker 7]
       d1 d2 tx a r
  show ?thesis by simp
qed

text \<open>
  Claim C5: every republish request is to get exactly one result, a failure with a
  descriptive error when the topic or the payload is empty or absent. The body of the
  handler does so and catches what it raises, but the pattern \<^verbatim>\<open>{ topic, payload }\<close> stands
  in the parameter list, outside the \<^verbatim>\<open>try\<close>: for a request that is \<^verbatim>\<open>null\<close>, or an event
  sent without an argument, taking it apart raises a TypeError that leaves the listener,
  and no result is emitted.
\<close>

theorem republish_without_object_raises:
  "on_republish_mqtt stringify publish socket None = Inl TypeError \<and>
   on_republish_mqtt stringify publish socket (Some JNull) = Inl TypeError"
  by (simp add: on_republish_mqtt_def)

text \<open>
  Claim C10: the check is \<^verbatim>\<open>!topic || !payload\<close>, so a payload that is the number 0, the
  boolean false or the empty string (or null) is rejected like an absent one, whatever
  the topic:
  the result is \<^verbatim>\<open>{success: false, error: "Invalid topic or payload"}\<close> and the broker is
  not called.
\<close>

theorem falsy_payload_rejected:
  assumes "map_of kvs ''payload'' = Some p"
    and "p = JNum 0 \<or> p = JBool False \<or> p = JStr [] \<or> p = JNull"
  shows "on_republish_mqtt stringify publish socket (Some (JObj kvs)) =
           Inr \<lparr>published = [], console = [],
                emitted = [(ToSocket socket, ''republish-result'',
                            JObj [(''success'', JBool False),
                                  (''error'', JStr ''Invalid topic or payload'')])]\<rparr>"
  using assms
  by (auto simp: on_republish_mqtt_def republish_body_def invalid_def reply_def failure_def
      split: option.splits)

theorem falsy_payload_rejected_witness:
  "map_of [(''topic'', JStr ''t''), (''payload'', JNum 0)] ''payload'' = Some (JNum 0) \<and>
   on_republish_mqtt sample_stringify accepting_broker 7
       (Some (JObj [(''topic'', JStr ''t''), (''payload'', JNum 0)])) =
     Inr \<lparr>published = [], console = [],
          emitted = [(ToSocket 7, ''republish-result'',
                      JObj [(''success'', JBool False),
                            (''error'', JStr ''Invalid topic or payload'')])]\<rparr> \<and>
   on_republish_mqtt sample_stringify accepting_broker 7
       (Some (JObj [(''topic'', JStr ''t''), (''payload'', JBool False)])) =
     Inr \<lparr>published = [], console = [],
          emitted = [(ToSocket 7, ''republish-result'',
                      JObj [(''success'', JBool False),
                            (''error'', JStr ''Invalid topic or payload'')])]\<rparr> \<and>
   on_republish_mqtt sample_stringify accepting_broker 7
       (Some (JObj [(''topic'', JStr ''t''), (''payload'', JStr [])])) =
     Inr \<lparr>published = [], console = [],
          emitted = [(ToSocket 7, ''republish-result'',
                      JObj [(''success'', JBool False),
                            (''error'', JStr ''Invalid topic or payload'')])]\<rparr>"
  using
    falsy_payload_rejected [of "[(''topic'', JStr ''t''), (''payload'', JNum 0)]" "JNum 0"
      sample_stringify accepting_broker 7]
    falsy_payload_rejected [of "[(''topic'', JStr ''t''), (''payload'', JBool False)]"
      "JBool False" sample_stringify accepting_broker 7]
    falsy_payload_rejected [of "[(''topic'', JStr ''t''), (''payload'', JStr [])]" "JStr []"
      sample_stringify accepting_broker 7]
  by simp

section \<open>The message handlers\<close>

lemma isGzip_prefix: "isGzip message \<longleftrightarrow> take 2 message = [0x1f, 0x8b]"
proof (cases message)
  case Nil
  then show ?thesis by (simp add: isGzip_def)
next
  case (Cons a as)
  then show ?thesis by (cases as) (auto simp: isGzip_def)
qed

lemma on_message_part_000_decode:
  "on_message_part_000 P clk topic message =
     (case decode P message of
        Inl e \<Rightarrow> Inl e
      | Inr (gz, jsonString, data) \<Rightarrow>
          Inr \<lparr>published = [],
               console = [Separator, MessageReceived, LogTopic topic,
                          LogTime (iso_logged clk), LogSize (length message),
                          SeparatorNL, SeparatorNL],
               emitted = [(Broadcast, ''mqtt-event'',
                           mqtt_event clk topic message gz jsonString data)]\<rparr>)"
proof (cases "isGzip message")
  case True
  then have c: "(length message \<ge> 2 \<and> message ! 0 = 0x1f \<and> message ! 1 = 0x8b) = True"
    by (simp add: isGzip_def)
  show ?thesis
    unfolding on_message_part_000_def decode_def mqtt_event_def isGzip_def c
    by (simp split: sum.splits)
next
  case False
  then have c: "(length message \<ge> 2 \<and> message ! 0 = 0x1f \<and> message ! 1 = 0x8b) = False"
    by (simp add: isGzip_def)
  show ?thesis
    unfolding on_message_part_000_def decode_def mqtt_event_def isGzip_def c
    by (simp split: sum.splits)
qed

lemma without_stamps_mqtt_event:
  "without_stamps (mqtt_event clk topic message gz jsonString data) =
     JObj [(''topic'', JStr topic), (''size'', JNum (of_nat (length message))),
           (''isCompressed'', JBool gz), (''raw'', JStr jsonString), (''parsed'', data)]"
  by (simp add: mqtt_event_def)

lemma on_message_decoded:
  "decode P message = Inr (gz, jsonString, data) \<Longrightarrow>
   on_message P clk topic message =
     Inr \<lparr>published = [],
          console = [Separator, MessageReceived, LogTopic topic,
                     LogTime (iso_logged clk), LogSize (length message), SeparatorNL],
          emitted = [(Broadcast, ''mqtt-event'',
                      mqtt_event clk topic message gz jsonString data)]\<rparr>"
  by (simp add: on_message_def)

lemma decode_isGzip: "decode P message = Inr (gz, jsonString, data) \<Longrightarrow> gz = isGzip message"
  by (auto simp: decode_def Let_def split: sum.splits if_splits)

text \<open>
  Claim C6: a message whose first two bytes are 0x1F, 0x8B is decompressed and the
  result is decoded and parsed; every other message is decoded and parsed as it is; and
  when \<open>compressed\<close> is a gzip stream (it carries the magic prefix) that decompresses
  to \<open>text\<close>, and \<open>text\<close> itself has no magic prefix (a JSON text never starts with the
  byte 0x1F), both give the same parsed value or the same failure.
\<close>

theorem decode_gzip_transparent:
  "(isGzip message \<longleftrightarrow> take 2 message = [0x1f, 0x8b]) \<and>
   (isGzip message \<longrightarrow>
      decode P message =
        (case gunzipSync P message of
           Inl e \<Rightarrow> Inl e
         | Inr plain \<Rightarrow>
            (case JSON_parse P (toString_utf8 P plain) of
               Inl e \<Rightarrow> Inl e
             | Inr data \<Rightarrow> Inr (True, toString_utf8 P plain, data)))) \<and>
   (\<not> isGzip message \<longrightarrow>
      decode P message =
        (case JSON_parse P (toString_utf8 P message) of
           Inl e \<Rightarrow> Inl e
         | Inr data \<Rightarrow> Inr (False, toString_utf8 P message, data))) \<and>
   (isGzip compressed \<and> gunzipSync P compressed = Inr text \<and> \<not> isGzip text \<longrightarrow>
      map_sum id (snd \<circ> snd) (decode P compressed) = map_sum id (snd \<circ> snd) (decode P text))"
proof (intro conjI impI)
  show "isGzip message \<longleftrightarrow> take 2 message = [0x1f, 0x8b]" by (rule isGzip_prefix)
next
  assume "isGzip message"
  then show "decode P message =
        (case gunzipSync P message of
           Inl e \<Rightarrow> Inl e
         | Inr plain \<Rightarrow>
            (case JSON_parse P (toString_utf8 P plain) of
               Inl e \<Rightarrow> Inl e
             | Inr data \<Rightarrow> Inr (True, toString_utf8 P plain, data)))"
    by (simp add: decode_def split: sum.splits)
next
  assume "\<not> isGzip message"
  then show "decode P message =
        (case JSON_parse P (toString_utf8 P message) of
           Inl e \<Rightarrow> Inl e
         | Inr data \<Rightarrow> Inr (False, toString_utf8 P message, data))"
    by (simp add: decode_def split: sum.splits)
next
  assume "isGzip compressed \<and> gunzipSync P compressed = Inr text \<and> \<not> isGzip text"
  then show "map_sum id (snd \<circ> snd) (decode P compressed) = map_sum id (snd \<circ> snd) (decode P text)"
    by (simp add: decode_def split: sum.splits)
qed

theorem decode_gzip_transparent_witness:
  "isGzip sample_gzip \<and>
   decode sample_host sample_gzip = Inr (True, sample_text, sample_tree) \<and>
   \<not> isGzip sample_plain \<and>
   decode sample_host sample_plain = Inr (False, sample_text, sample_tree) \<and>
   gunzipSync sample_host sample_gzip = Inr sample_plain \<and>
   map_sum id (snd \<circ> snd) (decode sample_host sample_gzip) =
     map_sum id (snd \<circ> snd) (decode sample_host sample_plain)"
proof -
  have g: "isGzip sample_gzip" by code_simp
  have p: "\<not> isGzip sample_plain" by code_simp
  have u: "gunzipSync sample_host sample_gzip = Inr sample_plain" by (simp add: sample_host_def)
  have t: "toString_utf8 sample_host sample_plain = sample_text" by code_simp
  have j: "JSON_parse sample_host sample_text = Inr sample_tree" by (simp add: sample_host_def)
  note thm1 = decode_gzip_transparent [of sample_gzip sample_host sample_gzip sample_plain]
  note thm2 = decode_gzip_transparent [of sample_plain sample_host sample_gzip sample_plain]
  from thm1 g have d1: "decode sample_host sample_gzip =
        (case gunzipSync sample_host sample_gzip of
           Inl e \<Rightarrow> Inl e
         | Inr plain \<Rightarrow>
            (case JSON_parse sample_host (toString_utf8 sample_host plain) of
               Inl e \<Rightarrow> Inl e
             | Inr data \<Rightarrow> Inr (True, toString_utf8 sample_host plain, data)))"
    by blast
  have d1': "decode sample_host sample_gzip = Inr (True, sample_text, sample_tree)"
    by (simp only: d1 u t j sum.case)
  from thm2 p have d2: "decode sample_host sample_plain =
        (case JSON_parse sample_host (toString_utf8 sample_host sample_plain) of
           Inl e \<Rightarrow> Inl e
         | Inr data \<Rightarrow> Inr (False, toString_utf8 sample_host sample_plain, data))"
    by blast
  have d2': "decode sample_host sample_plain = Inr (False, sample_text, sample_tree)"
    by (simp only: d2 t j sum.case)
  from thm1 g u p have e: "map_sum id (snd \<circ> snd) (decode sample_host sample_gzip) =
     map_sum id (snd \<circ> snd) (decode sample_host sample_plain)"
    by blast
  from g d1' p d2' u e show ?thesis by blast
qed

text \<open>
  Claim C9: on every message the handler of index.js and the handler of part_000 raise the
  same exception or emit the same event: with separate clock readings the events agree
  on \<^verbatim>\<open>topic\<close>, \<^verbatim>\<open>size\<close>, \<^verbatim>\<open>isCompressed\<close>, \<^verbatim>\<open>raw\<close> and \<^verbatim>\<open>parsed\<close>, that is on everything
  but \<^verbatim>\<open>id\<close> and \<^verbatim>\<open>time\<close>; with the same readings they are equal. (The two handlers differ
  in what they print: part_000 prints one more separator line.)
\<close>

theorem handlers_agree:
  "unstamped (on_message P clk topic message) =
     unstamped (on_message_part_000 P clk' topic message) \<and>
   map_sum id emitted (on_message P clk topic message) =
     map_sum id emitted (on_message_part_000 P clk topic message)"
proof (cases "decode P message")
  case (Inl e)
  then show ?thesis
    by (simp add: unstamped_def on_message_def on_message_part_000_decode)
next
  case (Inr r)
  then show ?thesis
    by (cases r)
       (simp add: unstamped_def on_message_def on_message_part_000_decode
          without_stamps_mqtt_event)
qed

text \<open>
  Claim C1, as stated: the event delivered to viewers for a decoded message holds a
  \<^verbatim>\<open>correlationId\<close> and a \<^verbatim>\<open>colorKey\<close>. The handler emits the seven fields of its object
  literal and nothing else: for the gzip-compressed message \<^verbatim>\<open>{"ticket":{"id":42}}\<close> on
  the topic \<^verbatim>\<open>orders/42\<close> the event has neither field.
\<close>

theorem event_without_correlation_counterexample:
  "map_sum id emitted (on_message sample_host sample_clock ''orders/42'' sample_gzip) =
     Inr [(Broadcast, ''mqtt-event'',
           JObj [(''id'', JNum 1700000000000),
                 (''topic'', JStr ''orders/42''),
                 (''size'', JNum 40),
                 (''isCompressed'', JBool True),
                 (''time'', JStr ''2023-11-14T22:13:20.000Z''),
                 (''raw'', JStr sample_text),
                 (''parsed'', JObj [(''ticket'', JObj [(''id'', JNum 42)])])])] \<and>
   field (JObj [(''id'', JNum 1700000000000),
                 (''topic'', JStr ''orders/42''),
                 (''size'', JNum 40),
                 (''isCompressed'', JBool True),
                 (''time'', JStr ''2023-11-14T22:13:20.000Z''),
                 (''raw'', JStr sample_text),
                 (''parsed'', JObj [(''ticket'', JObj [(''id'', JNum 42)])])])
      ''correlationId'' = None \<and>
   field (JObj [(''id'', JNum 1700000000000),
                 (''topic'', JStr ''orders/42''),
                 (''size'', JNum 40),
                 (''isCompressed'', JBool True),
                 (''time'', JStr ''2023-11-14T22:13:20.000Z''),
                 (''raw'', JStr sample_text),
                 (''parsed'', JObj [(''ticket'', JObj [(''id'', JNum 42)])])])
      ''colorKey'' = None"
  by code_simp

text \<open>
  Claim C1, amended: for every successfully decoded message the handler broadcasts one
  event with exactly the fields \<^verbatim>\<open>id\<close>, \<^verbatim>\<open>topic\<close>, \<^verbatim>\<open>size\<close>, \<^verbatim>\<open>isCompressed\<close>, \<^verbatim>\<open>time\<close>,
  \<^verbatim>\<open>raw\<close> and \<^verbatim>\<open>parsed\<close>, and without \<^verbatim>\<open>correlationId\<close> or \<^verbatim>\<open>colorKey\<close>; the correlation
  id and the color are what \<open>findTicketId\<close> and \<open>getTicketColor\<close> give on the event's
  \<^verbatim>\<open>parsed\<close> field. In particular, when the parsed value is \<^verbatim>\<open>{"ticket":{"id":42}}\<close>, then
  \<^verbatim>\<open>parsed.ticket.id\<close> is 42, \<open>findTicketId\<close> on it gives 42 and the color of 42 is not
  the neutral one; \<^verbatim>\<open>isCompressed\<close> is true exactly when the message carried the gzip
  prefix.
\<close>

theorem event_fields:
  assumes "decode P message = Inr (gz, jsonString, data)"
  shows
    "\<exists>ev. map_sum id emitted (on_message P clk topic message) =
            Inr [(Broadcast, ''mqtt-event'', ev)] \<and>
          map fst (props ev) =
            [''id'', ''topic'', ''size'', ''isCompressed'', ''time'', ''raw'', ''parsed''] \<and>
          field ev ''topic'' = Some (JStr topic) \<and>
          field ev ''size'' = Some (JNum (of_nat (length message))) \<and>
          field ev ''isCompressed'' = Some (JBool (isGzip message)) \<and>
          field ev ''raw'' = Some (JStr jsonString) \<and>
          field ev ''parsed'' = Some data \<and>
          field ev ''correlationId'' = None \<and>
          field ev ''colorKey'' = None \<and>
          (data = JObj [(''ticket'', JObj [(''id'', JNum 42)])] \<longrightarrow>
             prop_id (field data ''ticket'') = Inr (Some (JNum 42)) \<and>
             findTicketId N data 0 10 = Inr (Some 42) \<and>
             getTicketColor A (Some (number A 42)) \<noteq> getTicketColor A None)"
proof -
  let ?ev = "mqtt_event clk topic message gz jsonString data"
  have gz: "gz = isGzip message" using assms by (rule decode_isGzip)
  have e: "map_sum id emitted (on_message P clk topic message) =
            Inr [(Broadcast, ''mqtt-event'', ?ev)]"
    by (simp add: on_message_decoded [OF assms])
  have f: "map fst (props ?ev) =
            [''id'', ''topic'', ''size'', ''isCompressed'', ''time'', ''raw'', ''parsed'']"
    "field ?ev ''topic'' = Some (JStr topic)"
    "field ?ev ''size'' = Some (JNum (of_nat (length message)))"
    "field ?ev ''isCompressed'' = Some (JBool (isGzip message))"
    "field ?ev ''raw'' = Some (JStr jsonString)"
    "field ?ev ''parsed'' = Some data"
    "field ?ev ''correlationId'' = None"
    "field ?ev ''colorKey'' = None"
    by (simp_all add: mqtt_event_def gz)
  have t: "findTicketId N (JObj [(''ticket'', JObj [(''id'', JNum 42)])]) 0 10 = Inr (Some 42)"
  proof -
    have l: "toLowerCase ''ticket'' = ''ticket''" by code_simp
    have "check_key N ''ticket'' (JObj [(''id'', JNum 42)]) = Inr (Some 42)"
      by (simp add: check_key_def l direct_match_def ticket_match_def)
    then show ?thesis by (simp add: findTicketId_JObj)
  qed
  have n: "getTicketColor A (Some (number A 42)) \<noteq> getTicketColor A None"
    by (simp add: getTicketColor_def Let_def)
  show ?thesis
    by (rule exI [of _ ?ev]) (use e f t n in auto)
qed

theorem event_fields_witness:
  "decode sample_host sample_gzip = Inr (True, sample_text, sample_tree) \<and>
   sample_tree = JObj [(''ticket'', JObj [(''id'', JNum 42)])] \<and>
   (\<exists>ev. map_sum id emitted (on_message sample_host sample_clock ''orders/42'' sample_gzip) =
            Inr [(Broadcast, ''mqtt-event'', ev)] \<and>
          field ev ''isCompressed'' = Some (JBool True) \<and>
          field ev ''parsed'' = Some sample_tree \<and>
          field ev ''correlationId'' = None \<and>
          field ev ''colorKey'' = None) \<and>
   findTicketId digits_Number sample_tree 0 10 = Inr (Some 42) \<and>
   getTicketColor binary64 (Some (number binary64 42)) \<noteq> getTicketColor binary64 None"
proof -
  have d: "decode sample_host sample_gzip = Inr (True, sample_text, sample_tree)"
    by code_simp
  have s: "sample_tree = JObj [(''ticket'', JObj [(''id'', JNum 42)])]"
    by (simp add: sample_tree_def)
  have g: "isGzip sample_gzip" by code_simp
  from event_fields [OF d, of sample_clock "''orders/42''" digits_Number binary64] d s g
  show ?thesis by auto
qed

text \<open>
  Claim C3: a message that fails to decompress or to parse is to be dropped and
  reported, and the relay is to go on. Neither handler catches anything: the exception
  of \<^verbatim>\<open>zlib.gunzipSync\<close> or of \<^verbatim>\<open>JSON.parse\<close> leaves the listener, before any line is
  printed and before anything is emitted. The message is dropped, but the failure is
  not reported by the handler and it is not contained: it reaches the caller of the
  listener. (The republish handler of the same file wraps its body in \<^verbatim>\<open>try\<close>/\<^verbatim>\<open>catch\<close>.)
\<close>

theorem decode_failure_leaves_handler:
  "(isGzip message \<and> gunzipSync P message = Inl e \<longrightarrow>
      on_message P clk topic message = Inl e \<and>
      on_message_part_000 P clk topic message = Inl e) \<and>
   (isGzip message \<and> gunzipSync P message = Inr plain \<and>
    JSON_parse P (toString_utf8 P plain) = Inl e \<longrightarrow>
      on_message P clk topic message = Inl e \<and>
      on_message_part_000 P clk topic message = Inl e) \<and>
   (\<not> isGzip message \<and> JSON_parse P (toString_utf8 P message) = Inl e \<longrightarrow>
      on_message P clk topic message = Inl e \<and>
      on_message_part_000 P clk topic message = Inl e)"
  by (simp add: on_message_def on_message_part_000_decode decode_def)

theorem decode_failure_leaves_handler_witness:
  "isGzip [31, 139] \<and> gunzipSync sample_host [31, 139] = Inl ZlibError \<and>
   on_message sample_host sample_clock ''orders/42'' [31, 139] = Inl ZlibError \<and>
   on_message_part_000 sample_host sample_clock ''orders/42'' [31, 139] = Inl ZlibError \<and>
   isGzip brace_gzip \<and> gunzipSync sample_host brace_gzip = Inr [123] \<and>
   JSON_parse sample_host (toString_utf8 sample_host [123]) = Inl SyntaxError \<and>
   on_message sample_host sample_clock ''orders/42'' brace_gzip = Inl SyntaxError \<and>
   on_message_part_000 sample_host sample_clock ''orders/42'' brace_gzip = Inl SyntaxError \<and>
   \<not> isGzip [123] \<and>
   on_message sample_host sample_clock ''orders/42'' [123] = Inl SyntaxError \<and>
   on_message_part_000 sample_host sample_clock ''orders/42'' [123] = Inl SyntaxError"
proof -
  have g1: "isGzip [31, 139]" by code_simp
  have z1: "gunzipSync sample_host [31, 139] = Inl ZlibError" by code_simp
  have g2: "isGzip brace_gzip" by code_simp
  have z2: "gunzipSync sample_host brace_gzip = Inr [123]" by code_simp
  have j: "JSON_parse sample_host (toString_utf8 sample_host [123]) = Inl SyntaxError"
    by code_simp
  have g3: "\<not> isGzip [123]" by code_simp
  from decode_failure_leaves_handler
         [of "[31, 139]" sample_host ZlibError sample_clock "''orders/42''"]
       decode_failure_leaves_handler
         [of brace_gzip sample_host SyntaxError sample_clock "''orders/42''" "[123]"]
       decode_failure_leaves_handler
         [of "[123]" sample_host SyntaxError sample_clock "''orders/42''"]
       g1 z1 g2 z2 j g3
  show ?thesis by simp
qed

section \<open>The depth bound of findTicketId\<close>

lemma props_not_object: "\<not> typeof_object v \<Longrightarrow> props v = []"
  by (cases v) simp_all

lemma findTicketId_unfold:
  "depth \<le> maxDepth \<Longrightarrow>
   findTicketId N v depth maxDepth =
     (case scan_keys N (props v) of
        Inl e \<Rightarrow> Inl e
      | Inr (Some n) \<Rightarrow> Inr (Some n)
      | Inr None \<Rightarrow> search_children N (props v) depth maxDepth)"
  by (subst findTicketId.simps) (auto simp: props_not_object)

lemma findTicketId_too_deep: "depth > maxDepth \<Longrightarrow> findTicketId N v depth maxDepth = Inr None"
  by (subst findTicketId.simps) simp

lemma search_children_char:
  assumes "\<forall>c \<in> set (filter typeof_object (map snd kvs)).
             findTicketId N c (depth + 1) maxDepth = Inr None \<or>
             findTicketId N c (depth + 1) maxDepth = Inr (Some x)"
  shows "search_children N kvs depth maxDepth =
           (if \<exists>c \<in> set (filter typeof_object (map snd kvs)).
                 findTicketId N c (depth + 1) maxDepth = Inr (Some x)
            then Inr (Some x) else Inr None)"
  using assms
proof (induction kvs)
  case Nil
  show ?case by simp
next
  case (Cons kv kvs)
  obtain key val where kv: "kv = (key, val)" by (cases kv)
  have ih: "search_children N kvs depth maxDepth =
           (if \<exists>c \<in> set (filter typeof_object (map snd kvs)).
                 findTicketId N c (depth + 1) maxDepth = Inr (Some x)
            then Inr (Some x) else Inr None)"
    using Cons.prems by (intro Cons.IH) simp
  show ?case
  proof (cases "typeof_object val")
    case False
    then show ?thesis by (simp add: kv ih)
  next
    case True
    with Cons.prems kv have "findTicketId N val (depth + 1) maxDepth = Inr None \<or>
             findTicketId N val (depth + 1) maxDepth = Inr (Some x)"
      by simp
    then show ?thesis
    proof
      assume "findTicketId N val (depth + 1) maxDepth = Inr None"
      with True show ?thesis by (simp add: kv ih)
    next
      assume "findTicketId N val (depth + 1) maxDepth = Inr (Some x)"
      with True show ?thesis by (simp add: kv)
    qed
  qed
qed

lemma nodes_at_child:
  "c \<in> set (children v) \<Longrightarrow> n \<in> set (nodes_at k c) \<Longrightarrow> n \<in> set (nodes_at (Suc k) v)"
  by auto

lemma findTicketId_within:
  assumes "depth + int r = maxDepth"
    and "\<forall>k \<le> r. \<forall>n \<in> set (nodes_at k v).
           scan_keys N (props n) = Inr None \<or> scan_keys N (props n) = Inr (Some x)"
  shows "findTicketId N v depth maxDepth =
           (if \<exists>k \<le> r. \<exists>n \<in> set (nodes_at k v). scan_keys N (props n) = Inr (Some x)
            then Inr (Some x) else Inr None)"
  using assms
proof (induction r arbitrary: v depth)
  case 0
  then have here: "scan_keys N (props v) = Inr None \<or> scan_keys N (props v) = Inr (Some x)"
    by simp
  have deep: "\<forall>c \<in> set (filter typeof_object (map snd (props v))).
      findTicketId N c (depth + 1) maxDepth = Inr None"
    using 0 by (simp add: findTicketId_too_deep)
  then have "search_children N (props v) depth maxDepth = Inr None"
    using search_children_char [of "props v" N depth maxDepth x] by simp
  with here 0 show ?case
    by (auto simp: findTicketId_unfold)
next
  case (Suc r)
  have le: "depth \<le> maxDepth" using Suc.prems(1) by simp
  have here: "scan_keys N (props v) = Inr None \<or> scan_keys N (props v) = Inr (Some x)"
    using Suc.prems(2) by (auto dest: spec [of _ 0])
  have kids: "findTicketId N c (depth + 1) maxDepth =
           (if \<exists>k \<le> r. \<exists>n \<in> set (nodes_at k c). scan_keys N (props n) = Inr (Some x)
            then Inr (Some x) else Inr None)" if c: "c \<in> set (children v)" for c
  proof (rule Suc.IH)
    show "depth + 1 + int r = maxDepth" using Suc.prems(1) by simp
    show "\<forall>k \<le> r. \<forall>n \<in> set (nodes_at k c).
           scan_keys N (props n) = Inr None \<or> scan_keys N (props n) = Inr (Some x)"
    proof (intro allI impI ballI)
      fix k n assume "k \<le> r" "n \<in> set (nodes_at k c)"
      with c have "Suc k \<le> Suc r" "n \<in> set (nodes_at (Suc k) v)"
        by (auto intro: nodes_at_child simp del: nodes_at.simps)
      with Suc.prems(2) show "scan_keys N (props n) = Inr None \<or> scan_keys N (props n) = Inr (Some x)"
        by blast
    qed
  qed
  have sc: "search_children N (props v) depth maxDepth =
           (if \<exists>c \<in> set (children v).
                 findTicketId N c (depth + 1) maxDepth = Inr (Some x)
            then Inr (Some x) else Inr None)"
    unfolding children_def
    by (rule search_children_char) (use kids in \<open>auto simp: children_def\<close>)
  have ex: "(\<exists>k \<le> Suc r. \<exists>n \<in> set (nodes_at k v). scan_keys N (props n) = Inr (Some x)) \<longleftrightarrow>
        scan_keys N (props v) = Inr (Some x) \<or>
        (\<exists>c \<in> set (children v). \<exists>k \<le> r. \<exists>n \<in> set (nodes_at k c). scan_keys N (props n) = Inr (Some x))"
    (is "?L \<longleftrightarrow> ?H \<or> ?R")
  proof
    assume ?L
    then obtain k n where kn: "k \<le> Suc r" "n \<in> set (nodes_at k v)" "scan_keys N (props n) = Inr (Some x)"
      by blast
    show "?H \<or> ?R"
    proof (cases k)
      case 0
      with kn show ?thesis by simp
    next
      case (Suc j)
      with kn show ?thesis by auto
    qed
  next
    assume "?H \<or> ?R"
    then show ?L
    proof
      assume ?H
      then have "0 \<le> Suc r \<and> v \<in> set (nodes_at 0 v) \<and> scan_keys N (props v) = Inr (Some x)" by simp
      then show ?L by blast
    next
      assume ?R
      then obtain c k n where "c \<in> set (children v)" "k \<le> r" "n \<in> set (nodes_at k c)"
        "scan_keys N (props n) = Inr (Some x)" by blast
      then have "Suc k \<le> Suc r \<and> n \<in> set (nodes_at (Suc k) v) \<and> scan_keys N (props n) = Inr (Some x)"
        by (auto intro: nodes_at_child simp del: nodes_at.simps)
      then show ?L by blast
    qed
  qed
  show ?case
  proof (cases "scan_keys N (props v) = Inr (Some x)")
    case True
    then show ?thesis unfolding ex by (simp add: findTicketId_unfold [OF le])
  next
    case False
    with here have none: "scan_keys N (props v) = Inr None" by simp
    have "findTicketId N v depth maxDepth = search_children N (props v) depth maxDepth"
      by (simp add: findTicketId_unfold [OF le] none)
    also have "\<dots> = (if \<exists>c \<in> set (children v). \<exists>k \<le> r. \<exists>n \<in> set (nodes_at k c).
                         scan_keys N (props n) = Inr (Some x)
                      then Inr (Some x) else Inr None)"
      unfolding sc using kids by (auto split: if_splits)
    finally show ?thesis unfolding ex using False by simp
  qed
qed

lemma set_nodes_within:
  "n \<in> set (nodes_within m v) \<longleftrightarrow> (\<exists>k \<le> m. n \<in> set (nodes_at k v))"
  by (auto simp: nodes_within_def less_Suc_eq_le simp del: upt_Suc)

text \<open>
  The depth arithmetic. The depth of a ticket field is the depth of the node whose keys
  the first loop scans when it finds the field, the root being at depth 0. When the scan
  of every node at depth at most \<open>m\<close> ends without a result and without an exception,
  a search with \<open>maxDepth = m\<close> returns null; when a node at a depth \<open>d\<close> with
  \<open>m < d \<le> m'\<close> has a field with the value \<open>x\<close>, and every scan at depth at most \<open>m'\<close>
  ends with this value or without a result, the search with \<open>maxDepth = m'\<close> returns \<open>x\<close>.
\<close>

theorem depth_bound:
  assumes "list_all (\<lambda>n. scan_keys N (props n) = Inr None) (nodes_within m v)"
    and "list_all (\<lambda>n. scan_keys N (props n) = Inr None \<or> scan_keys N (props n) = Inr (Some x))
           (nodes_within m' v)"
    and "m < d" and "d \<le> m'"
    and "list_ex (\<lambda>n. scan_keys N (props n) = Inr (Some x)) (nodes_at d v)"
  shows "findTicketId N v 0 (int m) = Inr None \<and> findTicketId N v 0 (int m') = Inr (Some x)"
proof
  have none: "\<forall>k \<le> m. \<forall>n \<in> set (nodes_at k v). scan_keys N (props n) = Inr None"
    using assms(1) by (auto simp: list_all_iff set_nodes_within)
  then have "\<forall>k \<le> m. \<forall>n \<in> set (nodes_at k v).
      scan_keys N (props n) = Inr None \<or> scan_keys N (props n) = Inr (Some x)"
    by blast
  then have "findTicketId N v 0 (int m) =
      (if \<exists>k \<le> m. \<exists>n \<in> set (nodes_at k v). scan_keys N (props n) = Inr (Some x)
       then Inr (Some x) else Inr None)"
    by (intro findTicketId_within) simp_all
  with none show "findTicketId N v 0 (int m) = Inr None" by auto
next
  have "\<forall>k \<le> m'. \<forall>n \<in> set (nodes_at k v).
      scan_keys N (props n) = Inr None \<or> scan_keys N (props n) = Inr (Some x)"
    using assms(2) by (auto simp: list_all_iff set_nodes_within)
  then have "findTicketId N v 0 (int m') =
      (if \<exists>k \<le> m'. \<exists>n \<in> set (nodes_at k v). scan_keys N (props n) = Inr (Some x)
       then Inr (Some x) else Inr None)"
    by (intro findTicketId_within) simp_all
  moreover have "\<exists>k \<le> m'. \<exists>n \<in> set (nodes_at k v). scan_keys N (props n) = Inr (Some x)"
    using assms(4,5) by (auto simp: list_ex_iff)
  ultimately show "findTicketId N v 0 (int m') = Inr (Some x)" by simp
qed

theorem depth_bound_witness:
  "list_all (\<lambda>n. scan_keys digits_Number (props n) = Inr None) (nodes_within 2 nested_order) \<and>
   list_all (\<lambda>n. scan_keys digits_Number (props n) = Inr None \<or>
                  scan_keys digits_Number (props n) = Inr (Some 5))
     (nodes_within 10 nested_order) \<and>
   (2::nat) < 3 \<and> (3::nat) \<le> 10 \<and>
   list_ex (\<lambda>n. scan_keys digits_Number (props n) = Inr (Some 5)) (nodes_at 3 nested_order) \<and>
   findTicketId digits_Number nested_order 0 2 = Inr None \<and>
   findTicketId digits_Number nested_order 0 10 = Inr (Some 5)"
proof -
  have a: "list_all (\<lambda>n. scan_keys digits_Number (props n) = Inr None)
             (nodes_within 2 nested_order)"
    by code_simp
  have b: "list_all (\<lambda>n. scan_keys digits_Number (props n) = Inr None \<or>
                  scan_keys digits_Number (props n) = Inr (Some 5))
     (nodes_within 10 nested_order)"
    by code_simp
  have c: "(2::nat) < 3" by simp
  have d: "(3::nat) \<le> 10" by simp
  have e: "list_ex (\<lambda>n. scan_keys digits_Number (props n) = Inr (Some 5))
             (nodes_at 3 nested_order)"
    by code_simp
  from depth_bound [OF a b c d e] a b c d e show ?thesis by simp
qed

lemma check_key_ticket_null:
  "toLowerCase key = ''ticket'' \<Longrightarrow> check_key N key JNull = Inl TypeError"
  by (simp add: check_key_def direct_match_def ticket_match_def)

text \<open>
  Claim C7: a value whose only recognizable ticket field lies deeper than \<open>maxDepth\<close> is
  to give null, and the field's value once \<open>maxDepth\<close> covers it; exceeding the bound is
  not an error. The depth arithmetic does this, but only for values on which no scan
  raises. The first loop reads \<^verbatim>\<open>ticketObj.id\<close> of every \<^verbatim>\<open>ticket\<close> key whose \<^verbatim>\<open>typeof\<close> is
  \<^verbatim>\<open>'object'\<close>, which \<^verbatim>\<open>null\<close> is: a value with the key \<^verbatim>\<open>ticket: null\<close> at a scanned node
  raises a TypeError at every \<open>maxDepth\<close>, whatever lies deeper. In
  \<^verbatim>\<open>{"ticket":null,"x":{"y":{"ticketId":5}}}\<close> the only ticket field is at depth 2; the
  search raises with \<open>maxDepth\<close> 1 and with \<open>maxDepth\<close> 10, where the same value without
  the \<^verbatim>\<open>ticket\<close> key gives null and 5.
\<close>

theorem shallow_null_ticket_raises:
  assumes "toLowerCase key = ''ticket''"
    and "scan_keys N pre = Inr None"
    and "depth \<le> maxDepth"
  shows "findTicketId N (JObj (pre @ (key, JNull) # post)) depth maxDepth = Inl TypeError"
  using assms
  by (simp add: findTicketId_JObj scan_keys_append check_key_ticket_null)

theorem shallow_null_ticket_raises_witness:
  "toLowerCase ''ticket'' = ''ticket'' \<and>
   scan_keys digits_Number [] = Inr None \<and>
   (0::int) \<le> 1 \<and> (0::int) \<le> 10 \<and>
   findTicketId digits_Number
     (JObj [(''ticket'', JNull), (''x'', JObj [(''y'', JObj [(''ticketId'', JNum 5)])])]) 0 1
     = Inl TypeError \<and>
   findTicketId digits_Number
     (JObj [(''ticket'', JNull), (''x'', JObj [(''y'', JObj [(''ticketId'', JNum 5)])])]) 0 10
     = Inl TypeError \<and>
   findTicketId digits_Number
     (JObj [(''x'', JObj [(''y'', JObj [(''ticketId'', JNum 5)])])]) 0 1 = Inr None \<and>
   findTicketId digits_Number
     (JObj [(''x'', JObj [(''y'', JObj [(''ticketId'', JNum 5)])])]) 0 10 = Inr (Some 5)"
proof -
  have k: "toLowerCase ''ticket'' = ''ticket''" by code_simp
  have s: "scan_keys digits_Number [] = Inr None" by simp
  have d1: "(0::int) \<le> 1" by simp
  have d10: "(0::int) \<le> 10" by simp
  have n1: "findTicketId digits_Number
     (JObj [(''x'', JObj [(''y'', JObj [(''ticketId'', JNum 5)])])]) 0 1 = Inr None"
    by code_simp
  have n10: "findTicketId digits_Number
     (JObj [(''x'', JObj [(''y'', JObj [(''ticketId'', JNum 5)])])]) 0 10 = Inr (Some 5)"
    by code_simp
  from shallow_null_ticket_raises
         [OF k s d1, of "[(''x'', JObj [(''y'', JObj [(''ticketId'', JNum 5)])])]"]
       shallow_null_ticket_raises
         [OF k s d10, of "[(''x'', JObj [(''y'', JObj [(''ticketId'', JNum 5)])])]"]
       k s d1 d10 n1 n10
  show ?thesis by simp
qed

end
